theory Spec2Isabelle
  imports Complex_Main
begin

section \<open>Subalgebras of finite-dimensional Lie algebras with basis\<close>

text \<open>
  The development follows \<^verbatim>\<open>src/sage/algebras/lie_algebras/subalgebra.py\<close>: the class
  \<^verbatim>\<open>LieSubalgebra_finite_dimensional_with_basis\<close> and its element class. An element of
  the ambient algebra is represented by its coordinate vector, a list of \<open>n\<close> scalars, so
  that the ambient's \<^verbatim>\<open>to_vector\<close> and \<^verbatim>\<open>from_vector\<close> are the identity.

  The linear algebra the class calls (free modules, their submodules and echelon bases)
  and the bracket of the ambient algebra live outside the file; they are modelled first.
  The free modules depend on the base ring, and the source runs over the rationals and
  over the integers. The methods are therefore embedded twice: over a field \<open>'a\<close>, where a
  submodule is a subspace with a basis in reduced row echelon form, and over the integers,
  where a submodule is a lattice with a basis in Hermite form and its dimension is its rank.
\<close>

subsection \<open>Coordinate vectors\<close>

text \<open>Modelled from the spec: the coordinate space of the ambient algebra
  (\<open>AmbientVectorSpace\<close>), with its zero vector, addition, subtraction, scalar
  multiplication and zero test.\<close>

type_synonym 'a vec = "'a list"

definition zero_vec :: "nat \<Rightarrow> 'a::zero vec" where
  "zero_vec n = replicate n 0"

definition vadd :: "'a::plus vec \<Rightarrow> 'a vec \<Rightarrow> 'a vec" where
  "vadd v w = map2 (+) v w"

definition vsub :: "'a::minus vec \<Rightarrow> 'a vec \<Rightarrow> 'a vec" where
  "vsub v w = map2 (-) v w"

definition smult :: "'a::times \<Rightarrow> 'a vec \<Rightarrow> 'a vec" where
  "smult c v = map ((*) c) v"

definition is_zero :: "'a::zero vec \<Rightarrow> bool" where
  "is_zero v = list_all (\<lambda>x. x = 0) v"

text \<open>Modelled from the spec: coercion of a row into the coordinate space of dimension \<open>n\<close>.
  Every row the class passes on is the coordinate vector of an ambient element and has
  length \<open>n\<close>, where the coercion is the identity; a row of another length is cut or padded
  with zeros, so that a submodule always lives in the space of dimension \<open>n\<close>.\<close>

definition fit :: "nat \<Rightarrow> 'a::zero vec \<Rightarrow> 'a vec" where
  "fit n v = take n v @ replicate (n - length v) 0"

text \<open>Modelled from the spec: the echelonized basis of a submodule (\<open>echelonBasis\<close>). Over a
  field it is the reduced row echelon form of the spanning rows without its zero rows:
  \<open>lead\<close> is the index of the first nonzero entry of a row (its pivot), \<open>comb\<close> the
  combination of the basis rows that agrees with a vector on the pivots, \<open>reduce\<close> the rest
  of the vector, and \<open>insert_row\<close> adds one row to a basis in reduced echelon form.\<close>

fun lead :: "'a::zero vec \<Rightarrow> nat" where
  "lead [] = 0"
| "lead (x # xs) = (if x = 0 then Suc (lead xs) else 0)"

fun comb :: "nat \<Rightarrow> 'a::semiring_0 vec \<Rightarrow> 'a vec list \<Rightarrow> 'a vec" where
  "comb n v [] = zero_vec n"
| "comb n v (b # B) = vadd (smult (v ! lead b) b) (comb n v B)"

definition reduce :: "nat \<Rightarrow> 'a::ring vec \<Rightarrow> 'a vec list \<Rightarrow> 'a vec" where
  "reduce n v B = vsub v (comb n v B)"

definition insert_row :: "nat \<Rightarrow> 'a::field vec \<Rightarrow> 'a vec list \<Rightarrow> 'a vec list" where
  "insert_row n v B =
     (let r = reduce n v B; p = lead r in
      if is_zero r then B
      else (let u = smult (inverse (r ! p)) r in
            insort_key lead u (map (\<lambda>b. vsub b (smult (b ! p) u)) B)))"

primrec echelon_form :: "nat \<Rightarrow> 'a::field vec list \<Rightarrow> 'a vec list" where
  "echelon_form n [] = []"
| "echelon_form n (x # xs) = insert_row n (fit n x) (echelon_form n xs)"

text \<open>The reduced row echelon form as a predicate: every row has length \<open>n\<close> and a pivot
  with entry one, the other rows vanish in a pivot column, and the pivots increase
  strictly.\<close>

definition rref :: "nat \<Rightarrow> 'a::field vec list \<Rightarrow> bool" where
  "rref n B \<longleftrightarrow>
     (\<forall>b\<in>set B. length b = n \<and> lead b < n \<and> b ! lead b = 1) \<and>
     (\<forall>b\<in>set B. \<forall>c\<in>set B. b \<noteq> c \<longrightarrow> c ! lead b = 0) \<and>
     sorted (map lead B) \<and> distinct (map lead B)"

text \<open>Subspaces of the coordinate space, and the span of a set of vectors as the least
  subspace that contains it.\<close>

definition subspace :: "nat \<Rightarrow> 'a::field vec set \<Rightarrow> bool" where
  "subspace n V \<longleftrightarrow>
     (\<forall>v\<in>V. length v = n) \<and> zero_vec n \<in> V \<and>
     (\<forall>v\<in>V. \<forall>w\<in>V. vadd v w \<in> V) \<and>
     (\<forall>c. \<forall>v\<in>V. smult c v \<in> V)"

definition span :: "nat \<Rightarrow> 'a::field vec set \<Rightarrow> 'a vec set" where
  "span n S = {v. length v = n \<and> (\<forall>V. subspace n V \<and> S \<subseteq> V \<longrightarrow> v \<in> V)}"

subsection \<open>Vectors\<close>

lemma length_zero_vec [simp]: "length (zero_vec n) = n"
  by (simp add: zero_vec_def)

lemma nth_zero_vec [simp]: "i < n \<Longrightarrow> zero_vec n ! i = 0"
  by (simp add: zero_vec_def)

lemma length_vadd [simp]: "length (vadd v w) = min (length v) (length w)"
  by (simp add: vadd_def)

lemma length_vsub [simp]: "length (vsub v w) = min (length v) (length w)"
  by (simp add: vsub_def)

lemma length_smult [simp]: "length (smult c v) = length v"
  by (simp add: smult_def)

lemma nth_vadd [simp]: "i < length v \<Longrightarrow> i < length w \<Longrightarrow> vadd v w ! i = v ! i + w ! i"
  by (simp add: vadd_def)

lemma nth_vsub [simp]: "i < length v \<Longrightarrow> i < length w \<Longrightarrow> vsub v w ! i = v ! i - w ! i"
  by (simp add: vsub_def)

lemma nth_smult [simp]: "i < length v \<Longrightarrow> smult c v ! i = c * v ! i"
  by (simp add: smult_def)

lemma length_fit [simp]: "length (fit n v) = n"
  by (simp add: fit_def)

lemma fit_id [simp]: "length v = n \<Longrightarrow> fit n v = v"
  by (simp add: fit_def)

lemma is_zero_iff: "is_zero v \<longleftrightarrow> v = zero_vec (length v)"
  by (induction v) (auto simp: is_zero_def zero_vec_def)

lemma is_zero_nth: "is_zero v \<longleftrightarrow> (\<forall>i<length v. v ! i = 0)"
  by (simp add: is_zero_def list_all_length)

subsection \<open>The leading index\<close>

lemma lead_le: "lead v \<le> length v"
  by (induction v) auto

lemma lead_before: "i < lead v \<Longrightarrow> v ! i = 0"
proof (induction v arbitrary: i)
  case Nil
  then show ?case by simp
next
  case (Cons x xs)
  then show ?case by (cases i) (auto split: if_splits)
qed

lemma lead_nonzero: "lead v < length v \<Longrightarrow> v ! lead v \<noteq> 0"
  by (induction v) auto

lemma lead_full_iff: "lead v = length v \<longleftrightarrow> is_zero v"
  by (induction v) (auto simp: is_zero_def)

lemma lead_less_iff: "lead v < length v \<longleftrightarrow> \<not> is_zero v"
  using lead_le [of v] lead_full_iff [of v] by auto

lemma lead_eqI:
  assumes "k < length v" "v ! k \<noteq> 0" "\<And>i. i < k \<Longrightarrow> v ! i = 0"
  shows "lead v = k"
proof (rule ccontr)
  assume ne: "lead v \<noteq> k"
  show False
  proof (cases "lead v < k")
    case True
    then have "lead v < length v" using assms(1) by simp
    then have "v ! lead v \<noteq> 0" by (rule lead_nonzero)
    with assms(3) [OF True] show False by simp
  next
    case False
    with ne have "k < lead v" by simp
    then have "v ! k = 0" by (rule lead_before)
    with assms(2) show False by simp
  qed
qed

subsection \<open>Subspaces and spans\<close>

lemma span_length: "v \<in> span n S \<Longrightarrow> length v = n"
  by (simp add: span_def)

lemma subspace_span: "subspace n (span n S)"
  unfolding subspace_def span_def by auto

lemma span_superset: "\<forall>v\<in>S. length v = n \<Longrightarrow> S \<subseteq> span n S"
  unfolding span_def by auto

lemma span_base: "v \<in> S \<Longrightarrow> length v = n \<Longrightarrow> v \<in> span n S"
  unfolding span_def by auto

lemma span_minimal: "subspace n V \<Longrightarrow> S \<subseteq> V \<Longrightarrow> span n S \<subseteq> V"
  unfolding span_def by auto

lemma span_mono: "S \<subseteq> T \<Longrightarrow> span n S \<subseteq> span n T"
  unfolding span_def by auto

lemma span_zero: "zero_vec n \<in> span n S"
  using subspace_span [of n S] by (simp add: subspace_def)

lemma span_add: "v \<in> span n S \<Longrightarrow> w \<in> span n S \<Longrightarrow> vadd v w \<in> span n S"
  using subspace_span [of n S] by (simp add: subspace_def)

lemma span_smult: "v \<in> span n S \<Longrightarrow> smult c v \<in> span n S"
  using subspace_span [of n S] by (simp add: subspace_def)

lemma vsub_as_add:
  fixes v :: "'a::field vec"
  shows "length v = n \<Longrightarrow> length w = n \<Longrightarrow> vsub v w = vadd v (smult (- 1) w)"
  by (rule nth_equalityI) auto

lemma span_sub: "v \<in> span n S \<Longrightarrow> w \<in> span n S \<Longrightarrow> vsub v w \<in> span n S"
  using vsub_as_add [of v n w] span_add [of v n S "smult (- 1) w"] span_smult [of w n S "- 1"]
  by (simp add: span_length)

lemma span_span: "span n (span n S) = span n S"
proof
  show "span n (span n S) \<subseteq> span n S"
    by (rule span_minimal [OF subspace_span]) simp
  show "span n S \<subseteq> span n (span n S)"
    by (rule span_superset) (simp add: span_length)
qed

lemma span_subset_iff:
  "\<forall>v\<in>S. length v = n \<Longrightarrow> span n S \<subseteq> span n T \<longleftrightarrow> S \<subseteq> span n T"
  using span_superset [of S n] span_minimal [OF subspace_span, of S n T] by blast

subsection \<open>Combinations of the rows of a basis\<close>

lemma sum_list_map_zero:
  fixes f :: "'b \<Rightarrow> 'a::monoid_add"
  shows "(\<And>x. x \<in> set xs \<Longrightarrow> f x = 0) \<Longrightarrow> (\<Sum>x\<leftarrow>xs. f x) = 0"
  by (induction xs) auto

lemma vsub_zero_eq:
  fixes v :: "'a::group_add vec"
  assumes "length v = n" "length w = n" "vsub v w = zero_vec n"
  shows "v = w"
proof (rule nth_equalityI)
  show "length v = length w" using assms by simp
next
  fix i assume i: "i < length v"
  then have "vsub v w ! i = 0" using assms by simp
  with i assms(1,2) show "v ! i = w ! i" by simp
qed

lemma length_comb: "\<forall>b\<in>set B. length b = n \<Longrightarrow> length (comb n v B) = n"
  by (induction B) auto

lemma nth_comb:
  "\<forall>b\<in>set B. length b = n \<Longrightarrow> i < n \<Longrightarrow>
   comb n v B ! i = (\<Sum>b\<leftarrow>B. v ! lead b * b ! i)"
  by (induction B) (auto simp: length_comb)

lemma comb_in_span: "\<forall>b\<in>set B. length b = n \<Longrightarrow> comb n v B \<in> span n (set B)"
proof (induction B)
  case Nil
  show ?case by (simp add: span_zero)
next
  case (Cons b B)
  have sub: "span n (set B) \<subseteq> span n (set (b # B))"
    by (rule span_mono) auto
  have "comb n v B \<in> span n (set B)"
    using Cons.prems by (intro Cons.IH) simp
  with sub have 1: "comb n v B \<in> span n (set (b # B))" ..
  have "b \<in> span n (set (b # B))"
    using Cons.prems by (intro span_base) simp_all
  then have 2: "smult (v ! lead b) b \<in> span n (set (b # B))"
    by (rule span_smult)
  show ?case
    using span_add [OF 2 1] by simp
qed

lemma comb_vanish:
  fixes v :: "'a::field vec"
  assumes "\<forall>b\<in>set B. length b = n" "\<forall>b\<in>set B. v ! lead b = 0"
  shows "comb n v B = zero_vec n"
proof (rule nth_equalityI)
  show "length (comb n v B) = length (zero_vec n)"
    using assms(1) by (simp add: length_comb)
next
  fix i assume "i < length (comb n v B)"
  then have i: "i < n" using assms(1) by (simp add: length_comb)
  have "(\<Sum>b\<leftarrow>B. v ! lead b * b ! i) = 0"
    by (rule sum_list_map_zero) (simp add: assms(2))
  then show "comb n v B ! i = zero_vec n ! i"
    using assms(1) i by (simp add: nth_comb)
qed

lemma comb_add:
  fixes v :: "'a::field vec"
  assumes "\<forall>b\<in>set B. length b = n \<and> lead b < n" "length v = n" "length w = n"
  shows "comb n (vadd v w) B = vadd (comb n v B) (comb n w B)"
proof (rule nth_equalityI)
  show "length (comb n (vadd v w) B) = length (vadd (comb n v B) (comb n w B))"
    using assms by (simp add: length_comb)
next
  fix i assume "i < length (comb n (vadd v w) B)"
  then have i: "i < n" using assms by (simp add: length_comb)
  have "(\<Sum>b\<leftarrow>B. vadd v w ! lead b * b ! i) =
        (\<Sum>b\<leftarrow>B. v ! lead b * b ! i + w ! lead b * b ! i)"
    using assms by (intro arg_cong [where f = sum_list] map_cong) (auto simp: algebra_simps)
  also have "\<dots> = (\<Sum>b\<leftarrow>B. v ! lead b * b ! i) + (\<Sum>b\<leftarrow>B. w ! lead b * b ! i)"
    by (simp add: sum_list_addf)
  finally show "comb n (vadd v w) B ! i = vadd (comb n v B) (comb n w B) ! i"
    using assms i by (simp add: nth_comb length_comb)
qed

lemma comb_smult:
  fixes v :: "'a::field vec"
  assumes "\<forall>b\<in>set B. length b = n \<and> lead b < n" "length v = n"
  shows "comb n (smult c v) B = smult c (comb n v B)"
proof (rule nth_equalityI)
  show "length (comb n (smult c v) B) = length (smult c (comb n v B))"
    using assms by (simp add: length_comb)
next
  fix i assume "i < length (comb n (smult c v) B)"
  then have i: "i < n" using assms by (simp add: length_comb)
  have "(\<Sum>b\<leftarrow>B. smult c v ! lead b * b ! i) = (\<Sum>b\<leftarrow>B. c * (v ! lead b * b ! i))"
    using assms by (intro arg_cong [where f = sum_list] map_cong) (auto simp: algebra_simps)
  also have "\<dots> = c * (\<Sum>b\<leftarrow>B. v ! lead b * b ! i)"
    by (simp add: sum_list_const_mult)
  finally show "comb n (smult c v) B ! i = smult c (comb n v B) ! i"
    using assms i by (simp add: nth_comb length_comb)
qed

lemma comb_zero:
  fixes B :: "'a::field vec list"
  assumes "\<forall>b\<in>set B. length b = n \<and> lead b < n"
  shows "comb n (zero_vec n) B = zero_vec n"
  using assms by (intro comb_vanish) auto

lemma sum_list_delta:
  fixes f :: "'b \<Rightarrow> 'a::comm_monoid_add"
  shows "distinct B \<Longrightarrow> b \<in> set B \<Longrightarrow> (\<Sum>c\<leftarrow>B. if c = b then f c else 0) = f b"
proof (induction B)
  case Nil
  then show ?case by simp
next
  case (Cons a B)
  show ?case
  proof (cases "a = b")
    case True
    with Cons.prems have "b \<notin> set B" by simp
    then have "(\<Sum>c\<leftarrow>B. if c = b then f c else 0) = 0"
      by (intro sum_list_map_zero) auto
    with True show ?thesis by simp
  next
    case False
    with Cons show ?thesis by simp
  qed
qed

subsection \<open>Reduced row echelon form\<close>

lemma rref_Nil [simp]: "rref n []"
  by (simp add: rref_def)

lemma rref_length: "rref n B \<Longrightarrow> b \<in> set B \<Longrightarrow> length b = n"
  by (simp add: rref_def)

lemma rref_lead: "rref n B \<Longrightarrow> b \<in> set B \<Longrightarrow> lead b < n"
  by (simp add: rref_def)

lemma rref_one: "rref n B \<Longrightarrow> b \<in> set B \<Longrightarrow> b ! lead b = 1"
  by (simp add: rref_def)

lemma rref_other: "rref n B \<Longrightarrow> b \<in> set B \<Longrightarrow> c \<in> set B \<Longrightarrow> b \<noteq> c \<Longrightarrow> c ! lead b = 0"
  by (simp add: rref_def)

lemma rref_distinct: "rref n B \<Longrightarrow> distinct B"
  by (auto simp: rref_def distinct_map)

lemma rref_entry:
  "rref n B \<Longrightarrow> b \<in> set B \<Longrightarrow> c \<in> set B \<Longrightarrow> c ! lead b = (if c = b then 1 else 0)"
  by (auto simp: rref_one rref_other)

lemma rref_len_lead: "rref n B \<Longrightarrow> \<forall>b\<in>set B. length b = n \<and> lead b < n"
  by (simp add: rref_def)

lemma rref_len: "rref n B \<Longrightarrow> \<forall>b\<in>set B. length b = n"
  by (simp add: rref_def)

text \<open>The coefficient of a vector at a pivot survives the combination.\<close>

lemma comb_at_pivot:
  assumes "rref n B" "b \<in> set B"
  shows "comb n v B ! lead b = v ! lead b"
proof -
  have "comb n v B ! lead b = (\<Sum>c\<leftarrow>B. v ! lead c * c ! lead b)"
    using assms by (simp add: nth_comb rref_len rref_lead)
  also have "\<dots> = (\<Sum>c\<leftarrow>B. if c = b then v ! lead c else 0)"
    using assms by (intro arg_cong [where f = sum_list] map_cong) (auto simp: rref_entry)
  also have "\<dots> = v ! lead b"
    using assms by (simp add: sum_list_delta rref_distinct)
  finally show ?thesis .
qed

lemma comb_row:
  assumes "rref n B" "b \<in> set B"
  shows "comb n b B = b"
proof (rule nth_equalityI)
  show "length (comb n b B) = length b"
    using assms by (simp add: length_comb rref_len rref_length)
next
  fix i assume "i < length (comb n b B)"
  then have i: "i < n" using assms by (simp add: length_comb rref_len)
  have "comb n b B ! i = (\<Sum>c\<leftarrow>B. b ! lead c * c ! i)"
    using assms i by (simp add: nth_comb rref_len)
  also have "\<dots> = (\<Sum>c\<leftarrow>B. if c = b then c ! i else 0)"
    using assms by (intro arg_cong [where f = sum_list] map_cong) (auto simp: rref_entry)
  also have "\<dots> = b ! i"
    using assms by (simp add: sum_list_delta rref_distinct)
  finally show "comb n b B ! i = b ! i" .
qed

text \<open>Every vector of the span is the combination of the rows with its own pivot entries.\<close>

lemma comb_fixes_span:
  assumes "rref n B" "v \<in> span n (set B)"
  shows "comb n v B = v"
proof -
  let ?V = "{v. length v = n \<and> comb n v B = v}"
  have "subspace n ?V"
    unfolding subspace_def
    using rref_len_lead [OF assms(1)] by (auto simp: comb_add comb_smult comb_zero)
  moreover have "set B \<subseteq> ?V"
    using assms(1) by (auto simp: comb_row rref_length)
  ultimately have "span n (set B) \<subseteq> ?V" by (rule span_minimal)
  with assms(2) show ?thesis by auto
qed

lemma in_span_iff_comb:
  assumes "rref n B"
  shows "v \<in> span n (set B) \<longleftrightarrow> length v = n \<and> comb n v B = v"
proof
  assume "v \<in> span n (set B)"
  then show "length v = n \<and> comb n v B = v"
    using comb_fixes_span [OF assms] by (simp add: span_length)
next
  assume "length v = n \<and> comb n v B = v"
  then have "comb n v B = v" ..
  with comb_in_span [OF rref_len [OF assms], of v] show "v \<in> span n (set B)"
    by (rule subst [where P = "\<lambda>x. x \<in> span n (set B)", rotated])
qed

lemma span_vanish_pivots:
  assumes "rref n B" "v \<in> span n (set B)" "\<forall>b\<in>set B. v ! lead b = 0"
  shows "v = zero_vec n"
  using comb_fixes_span [OF assms(1,2)] comb_vanish [OF rref_len [OF assms(1)] assms(3)] by simp

text \<open>The leading index of a nonzero vector of the span is a pivot.\<close>

lemma span_lead_pivot:
  assumes "rref n B" "v \<in> span n (set B)" "\<not> is_zero v"
  shows "lead v \<in> lead ` set B"
proof (rule ccontr)
  assume no: "lead v \<notin> lead ` set B"
  have len: "length v = n" using assms(2) by (rule span_length)
  have l: "lead v < n" using assms(3) len lead_less_iff [of v] by simp
  have "v ! lead v = comb n v B ! lead v"
    using comb_fixes_span [OF assms(1,2)] by simp
  also have "\<dots> = (\<Sum>b\<leftarrow>B. v ! lead b * b ! lead v)"
    using assms(1) l by (simp add: nth_comb rref_len)
  also have "\<dots> = 0"
  proof (rule sum_list_map_zero)
    fix b assume b: "b \<in> set B"
    with no have "lead b \<noteq> lead v" by (metis image_eqI)
    then consider "lead b < lead v" | "lead v < lead b" by linarith
    then show "v ! lead b * b ! lead v = 0"
      by cases (simp_all add: lead_before)
  qed
  finally show False using lead_nonzero [of v] l len by simp
qed

lemma rref_row_nonzero: "rref n B \<Longrightarrow> b \<in> set B \<Longrightarrow> \<not> is_zero b"
  using lead_less_iff [of b] by (simp add: rref_def)

lemma rref_pivots_mono:
  assumes "rref n B" "rref n C" "span n (set B) \<subseteq> span n (set C)"
  shows "lead ` set B \<subseteq> lead ` set C"
proof
  fix p assume "p \<in> lead ` set B"
  then obtain b where b: "b \<in> set B" "p = lead b" by auto
  then have "b \<in> span n (set B)" using assms(1) by (simp add: span_base rref_length)
  with assms(3) have "b \<in> span n (set C)" by auto
  then show "p \<in> lead ` set C"
    using span_lead_pivot [OF assms(2)] rref_row_nonzero [OF assms(1) b(1)] b(2) by simp
qed

lemma rref_card: "rref n B \<Longrightarrow> card (lead ` set B) = length B"
  using distinct_card [of "map lead B"] by (simp add: rref_def)

lemma rref_length_le:
  assumes "rref n B"
  shows "length B \<le> n"
proof -
  have "lead ` set B \<subseteq> {..<n}" using assms by (auto simp: rref_def)
  then have "card (lead ` set B) \<le> card {..<n}" by (intro card_mono) auto
  then show ?thesis using rref_card [OF assms] by simp
qed

text \<open>A basis in reduced echelon form is determined by its span.\<close>

lemma rref_unique:
  assumes B: "rref n B" and C: "rref n C" and eq: "span n (set B) = span n (set C)"
  shows "B = C"
proof -
  have piv: "lead ` set B = lead ` set C"
    using rref_pivots_mono [OF B C] rref_pivots_mono [OF C B] eq by auto
  have leads: "map lead B = map lead C"
    using B C piv by (intro sorted_distinct_set_unique) (auto simp: rref_def)
  then have len: "length B = length C" by (rule map_eq_imp_length_eq)
  show ?thesis
  proof (rule nth_equalityI [OF len])
    fix i assume i: "i < length B"
    let ?b = "B ! i" and ?c = "C ! i"
    have bB: "?b \<in> set B" and cC: "?c \<in> set C" using i len by auto
    have li: "lead ?b = lead ?c"
      using leads i len by (metis nth_map)
    have "?b \<in> span n (set B)"
      using bB rref_length [OF B bB] by (rule span_base)
    then have bs: "?b \<in> span n (set C)"
      by (simp only: eq)
    have cs: "?c \<in> span n (set C)"
      using cC rref_length [OF C cC] by (rule span_base)
    have "vsub ?b ?c \<in> span n (set C)" using bs cs by (rule span_sub)
    moreover have "\<forall>c\<in>set C. vsub ?b ?c ! lead c = 0"
    proof
      fix c assume c: "c \<in> set C"
      then obtain j where j: "j < length C" "c = C ! j" by (auto simp: in_set_conv_nth)
      have lj: "lead (B ! j) = lead c"
        using leads j len by (metis nth_map)
      have bj: "B ! j \<in> set B" using j len by auto
      have "(B ! j = ?b) = (c = ?c)"
      proof
        assume "B ! j = ?b"
        then have "lead c = lead ?c" using lj li by simp
        then show "c = ?c"
          using C c cC by (metis rref_entry zero_neq_one)
      next
        assume "c = ?c"
        then have "lead (B ! j) = lead ?b" using lj li by simp
        then show "B ! j = ?b"
          using B bj bB by (metis rref_entry zero_neq_one)
      qed
      moreover have "?b ! lead c = (if ?b = B ! j then 1 else 0)"
        using rref_entry [OF B bj bB] lj by simp
      moreover have "?c ! lead c = (if ?c = c then 1 else 0)"
        using rref_entry [OF C c cC] by simp
      moreover have "lead c < n" "length ?b = n" "length ?c = n"
        using B C c bB cC by (auto simp: rref_def)
      ultimately show "vsub ?b ?c ! lead c = 0" by auto
    qed
    ultimately have z: "vsub ?b ?c = zero_vec n"
      by (rule span_vanish_pivots [OF C])
    have "length ?b = n" "length ?c = n"
      using B C bB cC by (auto simp: rref_def)
    then show "?b = ?c"
      using z by (rule vsub_zero_eq)
  qed
qed

subsection \<open>Inserting a row keeps the reduced echelon form and the span\<close>

lemma span_subset_subspace:
  assumes "subspace n V" "\<forall>a\<in>A. length a = n"
  shows "A \<subseteq> V \<longleftrightarrow> span n A \<subseteq> V"
  using span_minimal [OF assms(1), of A] span_superset [OF assms(2)] by blast

lemma span_union_cong:
  assumes "\<forall>a\<in>A. length a = n" "\<forall>a\<in>A'. length a = n" "span n A = span n A'"
  shows "span n (A \<union> C) = span n (A' \<union> C)"
proof -
  have "A \<union> C \<subseteq> V \<longleftrightarrow> A' \<union> C \<subseteq> V" if "subspace n V" for V
    using span_subset_subspace [OF that assms(1)] span_subset_subspace [OF that assms(2)]
      assms(3) by simp
  then show ?thesis unfolding span_def by blast
qed

lemma span_insert_cong:
  assumes "\<forall>a\<in>A. length a = n" "\<forall>a\<in>A'. length a = n" "span n A = span n A'"
  shows "span n (insert x A) = span n (insert x A')"
  using span_union_cong [OF assms, of "{x}"] by simp

lemma span_eqI:
  assumes "\<forall>a\<in>A. length a = n" "\<forall>a\<in>A'. length a = n"
    "A \<subseteq> span n A'" "A' \<subseteq> span n A"
  shows "span n A = span n A'"
proof
  show "span n A \<subseteq> span n A'"
    using assms(3) by (intro span_minimal [OF subspace_span])
  show "span n A' \<subseteq> span n A"
    using assms(4) by (intro span_minimal [OF subspace_span])
qed

lemma lead_smult:
  fixes v :: "'a::field vec"
  assumes "c \<noteq> 0"
  shows "lead (smult c v) = lead v"
  using assms by (induction v) (auto simp: smult_def)

lemma length_reduce: "\<forall>b\<in>set B. length b = n \<Longrightarrow> length v = n \<Longrightarrow> length (reduce n v B) = n"
  by (simp add: reduce_def length_comb)

lemma reduce_at_pivot:
  fixes v :: "'a::field vec"
  assumes "rref n B" "b \<in> set B" "length v = n"
  shows "reduce n v B ! lead b = 0"
  using assms comb_at_pivot [OF assms(1,2), of v]
  by (simp add: reduce_def length_comb rref_len rref_lead)

lemma vadd_vsub_cancel:
  fixes v :: "'a::field vec"
  assumes "length v = n" "length w = n"
  shows "vadd (vsub v w) w = v"
  using assms by (intro nth_equalityI) simp_all

lemma smult_smult:
  fixes v :: "'a::field vec"
  shows "smult c (smult d v) = smult (c * d) v"
  by (simp add: smult_def mult.assoc)

lemma smult_one [simp]:
  fixes v :: "'a::field vec"
  shows "smult 1 v = v"
  by (induction v) (simp_all add: smult_def)

lemma eq_mem_trans: "a = b \<Longrightarrow> a \<in> S \<Longrightarrow> b \<in> S"
  by simp

lemma reduce_zero_in_span:
  fixes v :: "'a::field vec"
  assumes "rref n B" "length v = n" "is_zero (reduce n v B)"
  shows "v \<in> span n (set B)"
proof -
  have len: "\<forall>b\<in>set B. length b = n" using assms(1) by (rule rref_len)
  have "reduce n v B = zero_vec n"
    using assms(3) is_zero_iff [of "reduce n v B"] length_reduce [OF len assms(2)] by simp
  then have "vsub v (comb n v B) = zero_vec n" by (simp add: reduce_def)
  with assms(2) length_comb [OF len, of v] have "v = comb n v B"
    by (intro vsub_zero_eq [of v n]) simp_all
  then have "comb n v B = v" by simp
  then show ?thesis
    using comb_in_span [OF len, of v] by (rule eq_mem_trans)
qed

lemma in_span_reduce_zero:
  fixes v :: "'a::field vec"
  assumes "rref n B" "v \<in> span n (set B)"
  shows "is_zero (reduce n v B)"
proof -
  have "length v = n" using assms(2) by (rule span_length)
  moreover have "comb n v B = v" using assms by (rule comb_fixes_span)
  ultimately show ?thesis
    by (simp add: reduce_def is_zero_nth)
qed

text \<open>The rows after elimination of the new pivot column.\<close>

lemma eliminate_row:
  fixes u :: "'a::field vec"
  assumes B: "rref n B" and b: "b \<in> set B" and lu: "length u = n"
    and piv: "\<forall>c\<in>set B. u ! lead c = 0" and p: "lead u = p" "p < n" "u ! p = 1"
  defines "b' \<equiv> vsub b (smult (b ! p) u)"
  shows "length b' = n" "lead b' = lead b" "b' ! lead b = 1" "b' ! p = 0"
    "\<And>c. c \<in> set B \<Longrightarrow> c \<noteq> b \<Longrightarrow> b' ! lead c = 0"
proof -
  have lb: "length b = n" and kb: "lead b < n" and ob: "b ! lead b = 1"
    using B b by (auto simp: rref_def)
  show len: "length b' = n" using lb lu by (simp add: b'_def)
  have nth: "b' ! i = b ! i - b ! p * u ! i" if "i < n" for i
    using that lb lu by (simp add: b'_def)
  have ub: "u ! lead b = 0" using piv b by simp
  show one: "b' ! lead b = 1" using nth [OF kb] ub ob by simp
  show "b' ! p = 0" using nth [OF p(2)] p(3) by simp
  show "lead b' = lead b"
  proof (rule lead_eqI)
    show "lead b < length b'" using kb len by simp
    show "b' ! lead b \<noteq> 0" using one by simp
    fix i assume i: "i < lead b"
    then have bi: "b ! i = 0" by (rule lead_before)
    have "b ! p * u ! i = 0"
    proof (cases "b ! p = 0")
      case True
      then show ?thesis by simp
    next
      case False
      have "\<not> p < lead b" using False lead_before [of p b] by auto
      with i have "i < lead u" using p(1) by simp
      then have "u ! i = 0" by (rule lead_before)
      then show ?thesis by simp
    qed
    with bi nth [of i] i kb show "b' ! i = 0" by simp
  qed
  fix c assume c: "c \<in> set B" "c \<noteq> b"
  have "b ! lead c = 0" using rref_other [OF B c(1) b c(2)] .
  moreover have "u ! lead c = 0" using piv c(1) by simp
  moreover have "lead c < n" using B c(1) by (rule rref_lead)
  ultimately show "b' ! lead c = 0" using nth [of "lead c"] by simp
qed

lemma insert_row_rref:
  fixes v :: "'a::field vec"
  assumes B: "rref n B" and lv: "length v = n"
  shows "rref n (insert_row n v B)"
proof (cases "is_zero (reduce n v B)")
  case True
  then show ?thesis using B by (simp add: insert_row_def)
next
  case False
  define r where "r = reduce n v B"
  define p where "p = lead r"
  define u where "u = smult (inverse (r ! p)) r"
  define g where "g = (\<lambda>b. vsub b (smult (b ! p) u))"
  have len: "\<forall>b\<in>set B. length b = n" using B by (rule rref_len)
  have lr: "length r = n" unfolding r_def using len lv by (rule length_reduce)
  have nz: "\<not> is_zero r" using False by (simp add: r_def)
  have pn: "p < n" using nz lead_less_iff [of r] lr by (simp add: p_def)
  have rp: "r ! p \<noteq> 0" using lead_nonzero [of r] pn lr by (simp add: p_def)
  have lu: "length u = n" using lr by (simp add: u_def)
  have up: "u ! p = 1" using rp pn lr by (simp add: u_def)
  have leadu: "lead u = p" using rp by (simp add: u_def lead_smult p_def)
  have piv: "\<forall>c\<in>set B. u ! lead c = 0"
  proof
    fix c assume c: "c \<in> set B"
    have "r ! lead c = 0" unfolding r_def using B c lv by (rule reduce_at_pivot)
    moreover have "lead c < n" using B c by (rule rref_lead)
    ultimately show "u ! lead c = 0" using lr by (simp add: u_def)
  qed
  have pnew: "p \<notin> lead ` set B"
  proof
    assume "p \<in> lead ` set B"
    then obtain c where c: "c \<in> set B" "p = lead c" by auto
    then have "u ! p = 0" using piv by simp
    with up show False by simp
  qed
  have el: "length (g b) = n" "lead (g b) = lead b" "g b ! lead b = 1" "g b ! p = 0"
    "\<And>c. c \<in> set B \<Longrightarrow> c \<noteq> b \<Longrightarrow> g b ! lead c = 0" if "b \<in> set B" for b
    unfolding g_def using eliminate_row [OF B that lu piv leadu pn up] by blast+
  have new: "insert_row n v B = insort_key lead u (map g B)"
    using False by (simp add: insert_row_def Let_def r_def p_def u_def g_def)
  have leads: "map lead (map g B) = map lead B"
    using el(2) by simp
  have 1: "\<forall>x\<in>set (insort_key lead u (map g B)). length x = n \<and> lead x < n \<and> x ! lead x = 1"
  proof
    fix x assume "x \<in> set (insort_key lead u (map g B))"
    then consider "x = u" | b where "b \<in> set B" "x = g b" by (auto simp: set_insort_key)
    then show "length x = n \<and> lead x < n \<and> x ! lead x = 1"
    proof cases
      case 1
      then show ?thesis using lu leadu pn up by simp
    next
      case 2
      then show ?thesis using el(1,2,3) [OF 2(1)] rref_lead [OF B 2(1)] by simp
    qed
  qed
  have 2: "\<forall>x\<in>set (insort_key lead u (map g B)). \<forall>y\<in>set (insort_key lead u (map g B)).
            x \<noteq> y \<longrightarrow> y ! lead x = 0"
  proof (intro ballI impI)
    fix x y assume x: "x \<in> set (insort_key lead u (map g B))"
      and y: "y \<in> set (insort_key lead u (map g B))" and ne: "x \<noteq> y"
    from x consider "x = u" | b where "b \<in> set B" "x = g b" by (auto simp: set_insort_key)
    then show "y ! lead x = 0"
    proof cases
      case 1
      with y ne obtain c where c: "c \<in> set B" "y = g c" by (auto simp: set_insort_key)
      show ?thesis using el(4) [OF c(1)] c(2) 1 leadu by simp
    next
      case 2
      from y consider "y = u" | c where "c \<in> set B" "y = g c" by (auto simp: set_insort_key)
      then show ?thesis
      proof cases
        case 1
        then show ?thesis using piv 2 el(2) [OF 2(1)] by simp
      next
        case 2
        note yc = this
        have "c \<noteq> b" using ne \<open>x = g b\<close> yc(2) by auto
        have "b \<noteq> c" using \<open>c \<noteq> b\<close> by simp
        from el(5) [OF yc(1) \<open>b \<in> set B\<close> this] el(2) [OF \<open>b \<in> set B\<close>]
        show ?thesis using yc(2) \<open>x = g b\<close> by simp
      qed
    qed
  qed
  have 3: "sorted (map lead (insort_key lead u (map g B)))"
  proof -
    have "sorted (map lead (map g B))"
      unfolding leads using B by (simp add: rref_def)
    then show ?thesis by (simp only: sorted_insort_key)
  qed
  have 4: "distinct (map lead (insort_key lead u (map g B)))"
  proof -
    have "lead ` set (map g B) = lead ` set B"
      using leads by (metis set_map)
    moreover have "distinct (map lead (map g B))"
      unfolding leads using B by (simp add: rref_def)
    ultimately show ?thesis
      using pnew leadu by (simp only: distinct_insort_key) simp
  qed
  show ?thesis
    unfolding new rref_def using 1 2 3 4 by blast
qed

lemma smult_inverse_cancel:
  fixes r :: "'a::field vec"
  assumes "c \<noteq> 0"
  shows "smult c (smult (inverse c) r) = r"
  using assms by (simp add: smult_smult)

lemma insert_row_span:
  fixes v :: "'a::field vec"
  assumes B: "rref n B" and lv: "length v = n"
  shows "span n (set (insert_row n v B)) = span n (insert v (set B))"
proof (cases "is_zero (reduce n v B)")
  case True
  have len: "\<forall>b\<in>set B. length b = n" using B by (rule rref_len)
  have v: "v \<in> span n (set B)" using B lv True by (rule reduce_zero_in_span)
  have "span n (insert v (set B)) = span n (set B)"
  proof (rule span_eqI)
    show "\<forall>a\<in>insert v (set B). length a = n" using len lv by simp
    show "\<forall>a\<in>set B. length a = n" by (rule len)
    show "insert v (set B) \<subseteq> span n (set B)"
      using v span_superset [OF len] by simp
    show "set B \<subseteq> span n (insert v (set B))"
      using len by (auto intro: span_base)
  qed
  then show ?thesis using True by (simp add: insert_row_def)
next
  case False
  define r where "r = reduce n v B"
  define p where "p = lead r"
  define u where "u = smult (inverse (r ! p)) r"
  define g where "g = (\<lambda>b. vsub b (smult (b ! p) u))"
  have len: "\<forall>b\<in>set B. length b = n" using B by (rule rref_len)
  have lr: "length r = n" unfolding r_def using len lv by (rule length_reduce)
  have nz: "\<not> is_zero r" using False by (simp add: r_def)
  have pn: "p < n" using nz lead_less_iff [of r] lr by (simp add: p_def)
  have rp: "r ! p \<noteq> 0" using lead_nonzero [of r] pn lr by (simp add: p_def)
  have lu: "length u = n" using lr by (simp add: u_def)
  have lg: "length (g b) = n" if "b \<in> set B" for b
    using that len lu by (simp add: g_def)
  have lc: "length (comb n v B) = n" using len by (rule length_comb)
  have new: "set (insert_row n v B) = insert u (g ` set B)"
    using False by (simp add: insert_row_def Let_def r_def p_def u_def g_def set_insort_key)
  have ru: "smult (r ! p) u = r"
    unfolding u_def using rp by (rule smult_inverse_cancel)
  have vr: "vadd r (comb n v B) = v"
    unfolding r_def reduce_def using lv lc by (rule vadd_vsub_cancel)
  have bg: "vadd (g b) (smult (b ! p) u) = b" if "b \<in> set B" for b
    unfolding g_def using that len lu by (intro vadd_vsub_cancel [of _ n]) simp_all
  let ?S = "insert v (set B)" and ?N = "insert u (g ` set B)"
  have lS: "\<forall>a\<in>?S. length a = n" using len lv by simp
  have lN: "\<forall>a\<in>?N. length a = n" using lu lg by auto
  have "span n ?N = span n ?S"
  proof (rule span_eqI [OF lN lS])
    have vS: "v \<in> span n ?S" using lv by (intro span_base) simp_all
    have BS: "b \<in> span n ?S" if "b \<in> set B" for b
      using that len by (intro span_base) simp_all
    have "span n (set B) \<subseteq> span n ?S" by (rule span_mono) auto
    then have cS: "comb n v B \<in> span n ?S" using comb_in_span [OF len, of v] by auto
    have rS: "r \<in> span n ?S" unfolding r_def reduce_def using vS cS by (rule span_sub)
    have uS: "u \<in> span n ?S" unfolding u_def using rS by (rule span_smult)
    have gS: "g b \<in> span n ?S" if "b \<in> set B" for b
      unfolding g_def using BS [OF that] span_smult [OF uS] by (rule span_sub)
    show "?N \<subseteq> span n ?S" using uS gS by auto
  next
    have uN: "u \<in> span n ?N" using lu by (intro span_base) simp_all
    have gN: "g b \<in> span n ?N" if "b \<in> set B" for b
      using that lg by (intro span_base) simp_all
    have bN: "b \<in> span n ?N" if "b \<in> set B" for b
      using bg [OF that] span_add [OF gN [OF that] span_smult [OF uN]] by (rule eq_mem_trans)
    then have "set B \<subseteq> span n ?N" by auto
    then have "span n (set B) \<subseteq> span n ?N" by (intro span_minimal [OF subspace_span])
    then have cN: "comb n v B \<in> span n ?N" using comb_in_span [OF len, of v] by auto
    have rN: "r \<in> span n ?N" using ru span_smult [OF uN] by (rule eq_mem_trans)
    have vN: "v \<in> span n ?N" using vr span_add [OF rN cN] by (rule eq_mem_trans)
    show "?S \<subseteq> span n ?N" using vN bN by auto
  qed
  then show ?thesis by (simp only: new)
qed

subsection \<open>The echelon form of a list of rows\<close>

lemma echelon_form_rref: "rref n (echelon_form n xs)"
  by (induction xs) (simp_all add: insert_row_rref)

lemma echelon_form_length_le: "length (echelon_form n xs) \<le> n"
  using echelon_form_rref by (rule rref_length_le)

lemma echelon_form_span_fit:
  "span n (set (echelon_form n xs)) = span n (set (map (fit n) xs))"
proof (induction xs)
  case Nil
  show ?case by simp
next
  case (Cons x xs)
  have "span n (set (echelon_form n (x # xs))) =
        span n (insert (fit n x) (set (echelon_form n xs)))"
    using echelon_form_rref [of n xs] by (simp add: insert_row_span)
  also have "\<dots> = span n (insert (fit n x) (set (map (fit n) xs)))"
    using Cons.IH by (intro span_insert_cong) (auto simp: rref_length [OF echelon_form_rref])
  finally show ?case by simp
qed

lemma map_fit_id: "\<forall>x\<in>set xs. length x = n \<Longrightarrow> map (fit n) xs = xs"
  by (induction xs) simp_all

lemma echelon_form_span:
  "\<forall>x\<in>set xs. length x = n \<Longrightarrow> span n (set (echelon_form n xs)) = span n (set xs)"
  using echelon_form_span_fit [of n xs] by (simp add: map_fit_id)

text \<open>Two bases in reduced echelon form, one spanning at least the other and no longer
  than it, are the same basis.\<close>

lemma rref_span_subset_length:
  assumes B: "rref n B" and C: "rref n C"
    and sub: "span n (set B) \<subseteq> span n (set C)" and le: "length C \<le> length B"
  shows "C = B"
proof -
  have "lead ` set B \<subseteq> lead ` set C" using B C sub by (rule rref_pivots_mono)
  moreover have "card (lead ` set C) \<le> card (lead ` set B)"
    using le by (simp add: rref_card [OF B] rref_card [OF C])
  ultimately have piv: "lead ` set B = lead ` set C"
    by (intro card_seteq) simp_all
  have lenC: "\<forall>c\<in>set C. length c = n" using C by (rule rref_len)
  have lenB: "\<forall>b\<in>set B. length b = n" using B by (rule rref_len)
  have "set C \<subseteq> span n (set B)"
  proof
    fix c assume c: "c \<in> set C"
    have lc: "length c = n" using C c by (rule rref_length)
    have cC: "c \<in> span n (set C)" using c lc by (rule span_base)
    have "comb n c B \<in> span n (set C)" using comb_in_span [OF lenB, of c] sub by auto
    with cC have dC: "reduce n c B \<in> span n (set C)"
      unfolding reduce_def by (rule span_sub)
    have "\<forall>c'\<in>set C. reduce n c B ! lead c' = 0"
    proof
      fix c' assume "c' \<in> set C"
      then have "lead c' \<in> lead ` set B" using piv by auto
      then obtain b where b: "b \<in> set B" "lead c' = lead b" by auto
      show "reduce n c B ! lead c' = 0"
        unfolding b(2) using B b(1) lc by (rule reduce_at_pivot)
    qed
    with C dC have "reduce n c B = zero_vec n" by (rule span_vanish_pivots)
    then have "is_zero (reduce n c B)" by (simp add: is_zero_nth)
    with B lc show "c \<in> span n (set B)" by (rule reduce_zero_in_span)
  qed
  then have "span n (set C) \<subseteq> span n (set B)" by (intro span_minimal [OF subspace_span])
  with sub have "span n (set C) = span n (set B)" by auto
  with C B show ?thesis by (rule rref_unique)
qed

subsection \<open>The ambient Lie algebra\<close>

text \<open>Modelled from the spec: the ambient algebra (\<open>AmbientLieAlgebra\<close>) has a dimension
  \<open>n\<close>, a fixed basis \<open>e\<^sub>0, \<dots>, e\<^sub>n\<^sub>-\<^sub>1\<close> and a bilinear bracket. The bracket is given by its
  structure coefficients: \<open>struct_coeffs L ! i ! j\<close> is the coordinate vector of
  \<open>[e\<^sub>i, e\<^sub>j]\<close>, and \<open>bracket\<close> extends it bilinearly to coordinate vectors. Antisymmetry
  and the Jacobi identity are not needed below, so they are not required of the table.\<close>

record 'a lie_algebra =
  dimension :: nat
  struct_coeffs :: "'a vec list list"

definition bracket :: "'a::comm_ring_1 lie_algebra \<Rightarrow> 'a vec \<Rightarrow> 'a vec \<Rightarrow> 'a vec" where
  "bracket L v w =
     map (\<lambda>k. \<Sum>i\<leftarrow>[0..<dimension L]. \<Sum>j\<leftarrow>[0..<dimension L].
                  v ! i * w ! j * (struct_coeffs L ! i ! j ! k))
         [0..<dimension L]"

lemma length_bracket [simp]: "length (bracket L v w) = dimension L"
  by (simp add: bracket_def)

lemma nth_bracket:
  "k < dimension L \<Longrightarrow>
   bracket L v w ! k =
     (\<Sum>i\<leftarrow>[0..<dimension L]. \<Sum>j\<leftarrow>[0..<dimension L].
        v ! i * w ! j * (struct_coeffs L ! i ! j ! k))"
  by (simp add: bracket_def)

lemma sum_list_upt_cong:
  fixes f :: "nat \<Rightarrow> 'a::monoid_add"
  assumes "\<And>i. i < n \<Longrightarrow> f i = g i"
  shows "(\<Sum>i\<leftarrow>[0..<n]. f i) = (\<Sum>i\<leftarrow>[0..<n]. g i)"
proof -
  have "map f [0..<n] = map g [0..<n]"
    by (rule map_cong) (simp_all add: assms)
  then show ?thesis by (rule arg_cong)
qed

lemma bracket_add_left:
  fixes v :: "'a::field vec"
  assumes "length v = dimension L" "length v' = dimension L"
  shows "bracket L (vadd v v') w = vadd (bracket L v w) (bracket L v' w)"
proof (rule nth_equalityI)
  show "length (bracket L (vadd v v') w) = length (vadd (bracket L v w) (bracket L v' w))"
    by simp
next
  fix k assume "k < length (bracket L (vadd v v') w)"
  then have k: "k < dimension L" by simp
  let ?c = "\<lambda>i j. struct_coeffs L ! i ! j ! k"
  let ?n = "dimension L"
  have "(\<Sum>i\<leftarrow>[0..<?n]. \<Sum>j\<leftarrow>[0..<?n]. vadd v v' ! i * w ! j * ?c i j) =
        (\<Sum>i\<leftarrow>[0..<?n]. (\<Sum>j\<leftarrow>[0..<?n]. v ! i * w ! j * ?c i j) +
                          (\<Sum>j\<leftarrow>[0..<?n]. v' ! i * w ! j * ?c i j))"
  proof (rule sum_list_upt_cong)
    fix i assume "i < ?n"
    then have "vadd v v' ! i = v ! i + v' ! i" using assms by simp
    then show "(\<Sum>j\<leftarrow>[0..<?n]. vadd v v' ! i * w ! j * ?c i j) =
        (\<Sum>j\<leftarrow>[0..<?n]. v ! i * w ! j * ?c i j) + (\<Sum>j\<leftarrow>[0..<?n]. v' ! i * w ! j * ?c i j)"
      by (simp add: distrib_right sum_list_addf)
  qed
  also have "\<dots> = (\<Sum>i\<leftarrow>[0..<?n]. \<Sum>j\<leftarrow>[0..<?n]. v ! i * w ! j * ?c i j) +
                    (\<Sum>i\<leftarrow>[0..<?n]. \<Sum>j\<leftarrow>[0..<?n]. v' ! i * w ! j * ?c i j)"
    by (simp add: sum_list_addf)
  finally show "bracket L (vadd v v') w ! k = vadd (bracket L v w) (bracket L v' w) ! k"
    using k by (simp add: nth_bracket)
qed

lemma bracket_add_right:
  fixes v :: "'a::field vec"
  assumes "length w = dimension L" "length w' = dimension L"
  shows "bracket L v (vadd w w') = vadd (bracket L v w) (bracket L v w')"
proof (rule nth_equalityI)
  show "length (bracket L v (vadd w w')) = length (vadd (bracket L v w) (bracket L v w'))"
    by simp
next
  fix k assume "k < length (bracket L v (vadd w w'))"
  then have k: "k < dimension L" by simp
  let ?c = "\<lambda>i j. struct_coeffs L ! i ! j ! k"
  let ?n = "dimension L"
  have inner: "(\<Sum>j\<leftarrow>[0..<?n]. v ! i * vadd w w' ! j * ?c i j) =
        (\<Sum>j\<leftarrow>[0..<?n]. v ! i * w ! j * ?c i j + v ! i * w' ! j * ?c i j)" for i
  proof (rule sum_list_upt_cong)
    fix j assume "j < ?n"
    then have "vadd w w' ! j = w ! j + w' ! j" using assms by simp
    then show "v ! i * vadd w w' ! j * ?c i j = v ! i * w ! j * ?c i j + v ! i * w' ! j * ?c i j"
      by (simp add: distrib_right distrib_left)
  qed
  have "(\<Sum>i\<leftarrow>[0..<?n]. \<Sum>j\<leftarrow>[0..<?n]. v ! i * vadd w w' ! j * ?c i j) =
        (\<Sum>i\<leftarrow>[0..<?n]. \<Sum>j\<leftarrow>[0..<?n]. v ! i * w ! j * ?c i j) +
        (\<Sum>i\<leftarrow>[0..<?n]. \<Sum>j\<leftarrow>[0..<?n]. v ! i * w' ! j * ?c i j)"
    by (simp only: inner sum_list_addf)
  then show "bracket L v (vadd w w') ! k = vadd (bracket L v w) (bracket L v w') ! k"
    using k by (simp add: nth_bracket)
qed

lemma bracket_smult_left:
  fixes v :: "'a::field vec"
  assumes "length v = dimension L"
  shows "bracket L (smult c v) w = smult c (bracket L v w)"
proof (rule nth_equalityI)
  show "length (bracket L (smult c v) w) = length (smult c (bracket L v w))"
    by simp
next
  fix k assume "k < length (bracket L (smult c v) w)"
  then have k: "k < dimension L" by simp
  let ?c = "\<lambda>i j. struct_coeffs L ! i ! j ! k"
  let ?n = "dimension L"
  have "(\<Sum>i\<leftarrow>[0..<?n]. \<Sum>j\<leftarrow>[0..<?n]. smult c v ! i * w ! j * ?c i j) =
        (\<Sum>i\<leftarrow>[0..<?n]. c * (\<Sum>j\<leftarrow>[0..<?n]. v ! i * w ! j * ?c i j))"
  proof (rule sum_list_upt_cong)
    fix i assume "i < ?n"
    then have "smult c v ! i = c * v ! i" using assms by simp
    then show "(\<Sum>j\<leftarrow>[0..<?n]. smult c v ! i * w ! j * ?c i j) =
        c * (\<Sum>j\<leftarrow>[0..<?n]. v ! i * w ! j * ?c i j)"
      by (simp add: mult.assoc sum_list_const_mult)
  qed
  also have "\<dots> = c * (\<Sum>i\<leftarrow>[0..<?n]. \<Sum>j\<leftarrow>[0..<?n]. v ! i * w ! j * ?c i j)"
    by (simp add: sum_list_const_mult)
  finally show "bracket L (smult c v) w ! k = smult c (bracket L v w) ! k"
    using k by (simp add: nth_bracket)
qed

lemma bracket_smult_right:
  fixes v :: "'a::field vec"
  assumes "length w = dimension L"
  shows "bracket L v (smult c w) = smult c (bracket L v w)"
proof (rule nth_equalityI)
  show "length (bracket L v (smult c w)) = length (smult c (bracket L v w))"
    by simp
next
  fix k assume "k < length (bracket L v (smult c w))"
  then have k: "k < dimension L" by simp
  let ?c = "\<lambda>i j. struct_coeffs L ! i ! j ! k"
  let ?n = "dimension L"
  have inner: "(\<Sum>j\<leftarrow>[0..<?n]. v ! i * smult c w ! j * ?c i j) =
        (\<Sum>j\<leftarrow>[0..<?n]. c * (v ! i * w ! j * ?c i j))" for i
  proof (rule sum_list_upt_cong)
    fix j assume "j < ?n"
    then have "smult c w ! j = c * w ! j" using assms by simp
    then show "v ! i * smult c w ! j * ?c i j = c * (v ! i * w ! j * ?c i j)"
      by (simp add: mult_ac)
  qed
  have "(\<Sum>i\<leftarrow>[0..<?n]. \<Sum>j\<leftarrow>[0..<?n]. v ! i * smult c w ! j * ?c i j) =
        c * (\<Sum>i\<leftarrow>[0..<?n]. \<Sum>j\<leftarrow>[0..<?n]. v ! i * w ! j * ?c i j)"
    by (simp only: inner sum_list_const_mult)
  then show "bracket L v (smult c w) ! k = smult c (bracket L v w) ! k"
    using k by (simp add: nth_bracket)
qed

lemma smult_zero_vec:
  fixes v :: "'a::field vec"
  shows "length v = n \<Longrightarrow> smult 0 v = zero_vec n"
  by (rule nth_equalityI) simp_all

lemma bracket_zero_left:
  fixes w :: "'a::field vec"
  shows "bracket L (zero_vec (dimension L)) w = zero_vec (dimension L)"
  using bracket_smult_left [of "zero_vec (dimension L)" L 0 w]
  by (simp add: smult_zero_vec)

lemma bracket_zero_right:
  fixes v :: "'a::field vec"
  shows "bracket L v (zero_vec (dimension L)) = zero_vec (dimension L)"
  using bracket_smult_right [of "zero_vec (dimension L)" L v 0]
  by (simp add: smult_zero_vec)

subsection \<open>Submodules of the coordinate space\<close>

text \<open>Modelled from the spec: a submodule of the coordinate space (\<open>SubalgebraModule\<close>) is
  represented by its basis matrix, the list of its basis rows; every submodule built below
  has an echelonized basis. The definitions of this subsection are those for a field; the
  ones for the integers follow further down.\<close>

type_synonym 'a submodule = "'a vec list"

text \<open>Modelled from the spec: \<^verbatim>\<open>m.submodule(gens)\<close> over a field, the subspace spanned by a
  list of rows (\<open>submoduleFromSpan\<close>), with its echelonized basis.\<close>

definition submodule :: "nat \<Rightarrow> 'a::field vec list \<Rightarrow> 'a submodule" where
  "submodule n xs = echelon_form n xs"

text \<open>Modelled from the spec: \<^verbatim>\<open>m.submodule_with_basis(rows)\<close>, the submodule with the given rows
  as its basis (\<open>submoduleWithBasis\<close>). The rows \<^verbatim>\<open>module()\<close> passes are the echelonized basis
  that \<^verbatim>\<open>basis()\<close> computed.\<close>

definition submodule_with_basis :: "nat \<Rightarrow> 'a vec list \<Rightarrow> 'a submodule" where
  "submodule_with_basis n B = B"

text \<open>Modelled from the spec: \<^verbatim>\<open>sm.dimension()\<close>, \<^verbatim>\<open>sm.basis()\<close> and
  \<^verbatim>\<open>sm.echelonized_basis()\<close> of a submodule.\<close>

definition sm_dimension :: "'a submodule \<Rightarrow> nat" where
  "sm_dimension sm = length sm"

definition sm_basis :: "'a submodule \<Rightarrow> 'a vec list" where
  "sm_basis sm = sm"

definition echelonized_basis :: "'a submodule \<Rightarrow> 'a vec list" where
  "echelonized_basis sm = sm"

text \<open>Modelled from the spec: \<^verbatim>\<open>v in sm\<close>, membership of a vector in a submodule with an
  echelonized basis: the vector has the degree of the space and reduces to zero.\<close>

definition in_submodule :: "nat \<Rightarrow> 'a::field submodule \<Rightarrow> 'a vec \<Rightarrow> bool" where
  "in_submodule n sm v \<longleftrightarrow> length v = n \<and> is_zero (reduce n v sm)"

text \<open>Modelled from the spec: a matrix built from rows, its row space
  \<^verbatim>\<open>b_mat.row_space()\<close> in the space of its number of columns, and
  \<^verbatim>\<open>R.is_submodule(M)\<close> (\<open>isSubmodule\<close>) for \<open>R\<close> of degree \<open>k\<close> and \<open>M\<close> of degree \<open>n\<close>: the
  two live in the same space and every basis row of \<open>R\<close> lies in \<open>M\<close>. A matrix built from
  an empty list of rows has no columns, so that its row space has degree \<open>0\<close>.\<close>

definition ncols :: "'a vec list \<Rightarrow> nat" where
  "ncols rows = (case rows of [] \<Rightarrow> 0 | r # rs \<Rightarrow> length r)"

definition row_space :: "'a::field vec list \<Rightarrow> 'a submodule" where
  "row_space b_mat = submodule (ncols b_mat) b_mat"

definition is_submodule :: "nat \<Rightarrow> 'a::field submodule \<Rightarrow> nat \<Rightarrow> 'a submodule \<Rightarrow> bool" where
  "is_submodule k R n M \<longleftrightarrow> k = n \<and> list_all (in_submodule n M) (sm_basis R)"

subsection \<open>The subalgebra and its elements\<close>

text \<open>A subalgebra object holds \<^verbatim>\<open>_ambient\<close> and \<^verbatim>\<open>_gens\<close>; the generators are elements of the
  ambient algebra. An element of the subalgebra (\<^verbatim>\<open>LieAlgebraElementWrapper\<close>) holds its parent
  and the wrapped ambient element, \<^verbatim>\<open>value\<close> in the source.\<close>

record 'a subalgebra =
  sub_ambient :: "'a lie_algebra"
  sub_gens :: "'a vec list"

record 'a element =
  parent :: "'a subalgebra"
  wrapped :: "'a vec"

text \<open>The exceptions the methods raise. \<open>ValueError\<close> is the error of \<^verbatim>\<open>retract\<close>; its
  message names the element and the subalgebra.\<close>

datatype 'a error =
    ValueError "'a vec" "'a subalgebra"
  | NameError
  | KeyError int
  | IndexError
  | TypeError
  | ArithmeticError
  | NotImplementedError
  | AttributeError

text \<open>Modelled from the spec: \<^verbatim>\<open>sm.coordinate_vector(v)\<close>, the coordinates of a vector of the
  submodule relative to its basis (\<open>coordinatesRelativeTo\<close>); it fails on a vector outside
  the submodule. For an echelonized basis the coordinates are the entries of the vector in
  the pivot columns. \<open>lincomb\<close> is the combination of basis rows with given coefficients.\<close>

definition coordinate_vector :: "nat \<Rightarrow> 'a::field submodule \<Rightarrow> 'a vec \<Rightarrow> 'a error + 'a list" where
  "coordinate_vector n sm v =
     (if in_submodule n sm v then Inr (map (\<lambda>b. v ! lead b) (sm_basis sm))
      else Inl ArithmeticError)"

fun lincomb :: "nat \<Rightarrow> 'a::semiring_0 list \<Rightarrow> 'a vec list \<Rightarrow> 'a vec" where
  "lincomb n (c # cs) (b # B) = vadd (smult c b) (lincomb n cs B)"
| "lincomb n cs B = zero_vec n"

definition ambient :: "'a subalgebra \<Rightarrow> 'a lie_algebra" where
  "ambient S = sub_ambient S"

definition gens :: "'a subalgebra \<Rightarrow> 'a vec list" where
  "gens S = sub_gens S"

definition lie_algebra_generators :: "'a subalgebra \<Rightarrow> 'a vec list" where
  "lie_algebra_generators S = sub_gens S"

text \<open>The method \<^verbatim>\<open>basis\<close>. The body of its loop is \<open>loop_body\<close>: the submodule spanned by
  the basis of \<open>sm\<close> and the brackets of all ordered pairs of basis rows. The loop itself is
  \<open>basis_loop\<close>, on the loop variables \<open>sm\<close> and \<open>d\<close>; it terminates because a submodule of the
  coordinate space has dimension at most \<open>n\<close>.\<close>

definition loop_body :: "'a::field lie_algebra \<Rightarrow> 'a submodule \<Rightarrow> 'a submodule" where
  "loop_body L sm =
     (let SB = sm_basis sm in
      submodule (dimension L) (sm_basis sm @ [bracket L v w. v \<leftarrow> SB, w \<leftarrow> SB]))"

function basis_loop :: "'a::field lie_algebra \<Rightarrow> 'a submodule \<Rightarrow> nat \<Rightarrow> 'a submodule" where
  "basis_loop L sm d =
     (if sm_dimension sm > d then basis_loop L (loop_body L sm) (sm_dimension sm) else sm)"
  by pat_completeness auto
termination
proof (relation "measure (\<lambda>(L, sm, d). max (dimension L) (sm_dimension sm) - d)")
  show "wf (measure (\<lambda>(L, sm, d). max (dimension L) (sm_dimension sm) - d))" by simp
next
  fix L :: "'a lie_algebra" and sm :: "'a submodule" and d :: nat
  assume "d < sm_dimension sm"
  moreover have "sm_dimension (loop_body L sm) \<le> dimension L"
    by (simp add: sm_dimension_def loop_body_def Let_def submodule_def echelon_form_length_le)
  ultimately show "((L, loop_body L sm, sm_dimension sm), (L, sm, d))
      \<in> measure (\<lambda>(L, sm, d). max (dimension L) (sm_dimension sm) - d)"
    by auto
qed

declare basis_loop.simps [simp del]

definition basis :: "'a::field subalgebra \<Rightarrow> 'a element list" where
  "basis S =
     (let L = ambient S;
          sm = submodule (dimension L) (lie_algebra_generators S)
      in map (\<lambda>v. \<lparr>parent = S, wrapped = v\<rparr>) (echelonized_basis (basis_loop L sm 0)))"

text \<open>The methods \<^verbatim>\<open>lift\<close>, \<^verbatim>\<open>module\<close>, \<^verbatim>\<open>__contains__\<close> (on an element of the ambient
  algebra), \<^verbatim>\<open>retract\<close> and \<^verbatim>\<open>from_vector\<close>. The inherited \<^verbatim>\<open>from_vector\<close> is modelled
  from the spec: a vector of the subalgebra's own dimension holds coordinates relative to the
  basis of the subalgebra.\<close>

definition lift :: "'a subalgebra \<Rightarrow> 'a element \<Rightarrow> 'a vec" where
  "lift S X = wrapped X"

definition module :: "'a::field subalgebra \<Rightarrow> 'a submodule" where
  "module S =
     submodule_with_basis (dimension (ambient S)) (map (\<lambda>X. lift S X) (basis S))"

definition contains :: "'a::field subalgebra \<Rightarrow> 'a vec \<Rightarrow> bool" where
  "contains S x = in_submodule (dimension (ambient S)) (module S) x"

definition retract :: "'a::field subalgebra \<Rightarrow> 'a vec \<Rightarrow> 'a error + 'a element" where
  "retract S X =
     (if \<not> contains S X then Inl (ValueError X S)
      else Inr \<lparr>parent = S, wrapped = X\<rparr>)"

definition from_vector :: "'a::field subalgebra \<Rightarrow> 'a vec \<Rightarrow> 'a error + 'a element" where
  "from_vector S v =
     (if length v = dimension (ambient S) then retract S v
      else if length v = sm_dimension (module S)
        then Inr \<lparr>parent = S, wrapped = lincomb (dimension (ambient S)) v (module S)\<rparr>
      else Inl TypeError)"

text \<open>The element methods \<^verbatim>\<open>_bracket_\<close>, \<^verbatim>\<open>to_vector\<close>, \<^verbatim>\<open>monomial_coefficients\<close> and
  \<^verbatim>\<open>__getitem__\<close>. A dictionary is an association list with integer keys; looking up a
  missing key raises \<open>KeyError\<close>. The handler of \<^verbatim>\<open>__getitem__\<close> catches \<open>IndexError\<close>
  only.\<close>

definition elem_bracket :: "'a::field element \<Rightarrow> 'a element \<Rightarrow> 'a error + 'a element" where
  "elem_bracket self x =
     (let P = parent self; self_lift = wrapped self; x_lift = wrapped x
      in retract P (bracket (ambient P) self_lift x_lift))"

definition to_vector :: "'a element \<Rightarrow> 'a vec" where
  "to_vector X = wrapped X"

definition monomial_coefficients :: "'a::field element \<Rightarrow> 'a error + (int \<times> 'a) list" where
  "monomial_coefficients X =
     (let sm = module (parent X) in
      case coordinate_vector (dimension (ambient (parent X))) sm (to_vector X) of
        Inl e \<Rightarrow> Inl e
      | Inr v \<Rightarrow> Inr [(int k, v ! k). k \<leftarrow> [0..<length v], v ! k \<noteq> 0])"

definition dict_lookup :: "(int \<times> 'a) list \<Rightarrow> int \<Rightarrow> 'b error + 'a" where
  "dict_lookup d i = (case map_of d i of None \<Rightarrow> Inl (KeyError i) | Some c \<Rightarrow> Inr c)"

definition elem_getitem :: "'a::field element \<Rightarrow> int \<Rightarrow> 'a error + 'a" where
  "elem_getitem X i =
     (case (case monomial_coefficients X of Inl e \<Rightarrow> Inl e | Inr d \<Rightarrow> dict_lookup d i) of
        Inl IndexError \<Rightarrow> Inr 0
      | Inl e \<Rightarrow> Inl e
      | Inr c \<Rightarrow> Inr c)"

text \<open>The values that the dynamically typed methods receive: an element of a Lie algebra
  with its parent, an element of a subalgebra, a vector of a free module, a list, a tuple
  and an integer. \<open>obj_is_zero\<close> is \<^verbatim>\<open>gen.is_zero()\<close>; lists and tuples have no such
  method.\<close>

datatype 'a pyobj =
    AmbientElement "'a lie_algebra" "'a vec"
  | SubElement "'a element"
  | ModuleVector "'a vec"
  | PyList "'a pyobj list"
  | PyTuple "'a pyobj list"
  | PyInt int

fun obj_is_zero :: "'a::zero pyobj \<Rightarrow> 'a error + bool" where
  "obj_is_zero (AmbientElement L v) = Inr (is_zero v)"
| "obj_is_zero (SubElement X) = Inr (is_zero (wrapped X))"
| "obj_is_zero (ModuleVector v) = Inr (is_zero v)"
| "obj_is_zero (PyInt k) = Inr (k = 0)"
| "obj_is_zero (PyList xs) = Inl AttributeError"
| "obj_is_zero (PyTuple xs) = Inl AttributeError"

text \<open>The method \<^verbatim>\<open>_element_constructor_\<close>. Its last case calls the constructor inherited
  from the framework, which is outside the file: it is the parameter \<open>inh\<close>. An object without
  \<^verbatim>\<open>parent()\<close> (a list or a tuple) takes the \<open>AttributeError\<close> branch, and only a vector can
  be in the module.\<close>

type_synonym 'a constructor = "'a subalgebra \<Rightarrow> 'a pyobj \<Rightarrow> 'a error + 'a element"

fun element_constructor :: "'a::field constructor \<Rightarrow> 'a subalgebra \<Rightarrow> 'a pyobj \<Rightarrow> 'a error + 'a element" where
  "element_constructor inh S (SubElement X) =
     (if parent X = S then Inr X else inh S (SubElement X))"
| "element_constructor inh S (AmbientElement P x) =
     (if P = ambient S then retract S x else inh S (AmbientElement P x))"
| "element_constructor inh S (ModuleVector v) =
     (if in_submodule (dimension (ambient S)) (module S) v then from_vector S v
      else inh S (ModuleVector v))"
| "element_constructor inh S (PyList [a, b]) =
     (case element_constructor inh S a of
        Inl e \<Rightarrow> Inl e
      | Inr u \<Rightarrow>
          (case element_constructor inh S b of
             Inl e \<Rightarrow> Inl e
           | Inr v \<Rightarrow> elem_bracket u v))"
| "element_constructor inh S x = inh S x"

text \<open>The method \<^verbatim>\<open>__getitem__\<close> of the subalgebra. After the test for a pair the source
  evaluates \<^verbatim>\<open>super(...)\<close> and then reads the name \<^verbatim>\<open>sup\<close>, which no scope defines.\<close>

fun getitem :: "'a::field constructor \<Rightarrow> 'a subalgebra \<Rightarrow> 'a pyobj \<Rightarrow> 'a error + 'a element" where
  "getitem inh S (PyTuple [a, b]) =
     (case element_constructor inh S a of
        Inl e \<Rightarrow> Inl e
      | Inr u \<Rightarrow>
          (case element_constructor inh S b of
             Inl e \<Rightarrow> Inl e
           | Inr v \<Rightarrow> elem_bracket u v))"
| "getitem inh S x = Inl NameError"

fun is_pair :: "'a pyobj \<Rightarrow> bool" where
  "is_pair (PyTuple [a, b]) = True"
| "is_pair x = False"

text \<open>The constructor \<^verbatim>\<open>__classcall_private__\<close>. The first argument is a Lie algebra or a
  subalgebra. Coercion into a Lie algebra that is not a subalgebra is outside the file: it is
  the parameter \<open>coerce\<close>. \<open>coerce_gens\<close> is the generator expression: it skips the zero
  generators and coerces the others in order, and the first error ends it.\<close>

datatype 'a parent_arg = TopLevel "'a lie_algebra" | Nested "'a subalgebra"

fun coerce_gens :: "('a::zero pyobj \<Rightarrow> 'a error + 'b) \<Rightarrow> 'a pyobj list \<Rightarrow> 'a error + 'b list" where
  "coerce_gens f [] = Inr []"
| "coerce_gens f (gen # rest) =
     (case obj_is_zero gen of
        Inl e \<Rightarrow> Inl e
      | Inr True \<Rightarrow> coerce_gens f rest
      | Inr False \<Rightarrow>
          (case f gen of
             Inl e \<Rightarrow> Inl e
           | Inr x \<Rightarrow>
               (case coerce_gens f rest of
                  Inl e \<Rightarrow> Inl e
                | Inr xs \<Rightarrow> Inr (x # xs))))"

fun as_gen_list :: "'a pyobj \<Rightarrow> 'a pyobj list" where
  "as_gen_list (PyList xs) = xs"
| "as_gen_list (PyTuple xs) = xs"
| "as_gen_list x = [x]"

type_synonym 'a coercion = "'a lie_algebra \<Rightarrow> 'a pyobj \<Rightarrow> 'a error + 'a vec"

fun classcall_private ::
  "'a::field coercion \<Rightarrow> 'a constructor \<Rightarrow> 'a parent_arg \<Rightarrow> 'a pyobj \<Rightarrow> 'a error + 'a subalgebra" where
  "classcall_private coerce inh (TopLevel L) gs =
     (case coerce_gens (coerce L) (as_gen_list gs) of
        Inl e \<Rightarrow> Inl e
      | Inr vs \<Rightarrow> Inr \<lparr>sub_ambient = L, sub_gens = vs\<rparr>)"
| "classcall_private coerce inh (Nested A) gs =
     (case coerce_gens (element_constructor inh A) (as_gen_list gs) of
        Inl e \<Rightarrow> Inl e
      | Inr es \<Rightarrow> Inr \<lparr>sub_ambient = ambient A, sub_gens = map (lift A) es\<rparr>)"

text \<open>Modelled from the spec: coercion into the ambient algebra (\<open>ambient(x)\<close>). An element of
  the algebra is kept, and an element of one of its subalgebras is lifted: the coercion
  that \<^verbatim>\<open>__init__\<close> registers. \<open>no_inherited\<close> is an inherited constructor that accepts
  nothing.\<close>

fun algebra_call :: "'a coercion" where
  "algebra_call L (AmbientElement P v) = (if P = L then Inr v else Inl TypeError)"
| "algebra_call L (SubElement X) =
     (if ambient (parent X) = L then Inr (lift (parent X) X) else Inl TypeError)"
| "algebra_call L x = Inl TypeError"

definition no_inherited :: "'a constructor" where
  "no_inherited S x = Inl TypeError"

text \<open>The method \<^verbatim>\<open>is_ideal\<close>. Modelled from the spec: the candidate \<open>A\<close> is any object; the
  method sees whether it equals the subalgebra, whether it is in the category of
  finite-dimensional Lie algebras with basis, its basis, and
  \<^verbatim>\<open>A.bracket(b, ab).to_vector()\<close>, which may raise. \<open>collect\<close> builds the list of rows and
  stops at the first error.\<close>

record 'a algebra =
  equals_subalgebra :: "'a subalgebra \<Rightarrow> bool"
  fd_with_basis :: bool
  algebra_basis :: "'a pyobj list"
  bracket_vector :: "'a element \<Rightarrow> 'a pyobj \<Rightarrow> 'a error + 'a vec"

fun collect :: "('e + 'b) list \<Rightarrow> 'e + 'b list" where
  "collect [] = Inr []"
| "collect (Inl e # rs) = Inl e"
| "collect (Inr x # rs) = (case collect rs of Inl e \<Rightarrow> Inl e | Inr xs \<Rightarrow> Inr (x # xs))"

definition bracket_rows :: "'a::field subalgebra \<Rightarrow> 'a algebra \<Rightarrow> 'a error + 'a vec list" where
  "bracket_rows S A =
     (let B = basis S; AB = algebra_basis A
      in collect [bracket_vector A b ab. b \<leftarrow> B, ab \<leftarrow> AB])"

fun soft_failure :: "'a error \<Rightarrow> bool" where
  "soft_failure (ValueError x S) = True"
| "soft_failure TypeError = True"
| "soft_failure e = False"

definition is_ideal :: "'a::field subalgebra \<Rightarrow> 'a algebra \<Rightarrow> 'a error + bool" where
  "is_ideal S A =
     (if equals_subalgebra A S then Inr True
      else if \<not> fd_with_basis A then Inl NotImplementedError
      else (case bracket_rows S A of
              Inl e \<Rightarrow> (if soft_failure e then Inr False else Inl e)
            | Inr b_mat \<Rightarrow>
                Inr (is_submodule (ncols b_mat) (row_space b_mat)
                       (dimension (ambient S)) (module S))))"

text \<open>The ambient algebra itself as a candidate: its basis are the unit vectors, and it
  brackets an element of one of its subalgebras with one of its own elements.\<close>

definition unit_vec :: "nat \<Rightarrow> nat \<Rightarrow> 'a::zero_neq_one vec" where
  "unit_vec n i = map (\<lambda>k. if k = i then 1 else 0) [0..<n]"

definition as_algebra :: "'a::field lie_algebra \<Rightarrow> 'a algebra" where
  "as_algebra L =
     \<lparr>equals_subalgebra = (\<lambda>S. False),
      fd_with_basis = True,
      algebra_basis = map (\<lambda>i. AmbientElement L (unit_vec (dimension L) i)) [0..<dimension L],
      bracket_vector = (\<lambda>b ab.
         (case ab of
            AmbientElement P v \<Rightarrow>
              (if P = L \<and> ambient (parent b) = L then Inr (bracket L (lift (parent b) b) v)
               else Inl TypeError)
          | _ \<Rightarrow> Inl TypeError))\<rparr>"

text \<open>Nested constructions: a subalgebra of a subalgebra of ... of a Lie algebra, \<open>root\<close> the
  algebra at the bottom, and \<open>build\<close> the calls of the constructor from the inside out.\<close>

datatype 'a construction = Top "'a lie_algebra" | SubalgebraOf "'a construction" "'a pyobj"

fun root :: "'a construction \<Rightarrow> 'a lie_algebra" where
  "root (Top L) = L"
| "root (SubalgebraOf c gs) = root c"

fun build :: "'a::field coercion \<Rightarrow> 'a constructor \<Rightarrow> 'a construction \<Rightarrow> 'a error + 'a parent_arg" where
  "build coerce inh (Top L) = Inr (TopLevel L)"
| "build coerce inh (SubalgebraOf c gs) =
     (case build coerce inh c of
        Inl e \<Rightarrow> Inl e
      | Inr A \<Rightarrow>
          (case classcall_private coerce inh A gs of
             Inl e \<Rightarrow> Inl e
           | Inr S \<Rightarrow> Inr (Nested S)))"

fun top_of :: "'a parent_arg \<Rightarrow> 'a lie_algebra" where
  "top_of (TopLevel L) = L"
| "top_of (Nested S) = ambient S"

subsection \<open>The closure computation\<close>

text \<open>The rows of the module as a set of vectors, the closure that \<^verbatim>\<open>basis\<close> computes from
  a list of generators, and the states of the loop: \<open>loop_state L gs k\<close> holds the loop
  variables \<open>(sm, d)\<close> after \<open>k\<close> passes.\<close>

definition bracket_closed :: "'a::field lie_algebra \<Rightarrow> 'a vec set \<Rightarrow> bool" where
  "bracket_closed L V \<longleftrightarrow> (\<forall>v\<in>V. \<forall>w\<in>V. bracket L v w \<in> V)"

definition brackets_of :: "'a::field lie_algebra \<Rightarrow> 'a vec list \<Rightarrow> 'a vec list" where
  "brackets_of L SB = [bracket L v w. v \<leftarrow> SB, w \<leftarrow> SB]"

definition rows_closed :: "'a::field lie_algebra \<Rightarrow> 'a vec list \<Rightarrow> bool" where
  "rows_closed L sm \<longleftrightarrow>
     (\<forall>v\<in>set sm. \<forall>w\<in>set sm. bracket L v w \<in> span (dimension L) (set sm))"

definition module_set :: "'a::field subalgebra \<Rightarrow> 'a vec set" where
  "module_set S = span (dimension (ambient S)) (set (module S))"

definition closure :: "'a::field lie_algebra \<Rightarrow> 'a vec list \<Rightarrow> 'a submodule" where
  "closure L gs = basis_loop L (submodule (dimension L) gs) 0"

fun loop_step :: "'a::field lie_algebra \<Rightarrow> 'a submodule \<times> nat \<Rightarrow> 'a submodule \<times> nat" where
  "loop_step L (sm, d) = (loop_body L sm, sm_dimension sm)"

fun loop_cond :: "'a submodule \<times> nat \<Rightarrow> bool" where
  "loop_cond (sm, d) \<longleftrightarrow> sm_dimension sm > d"

definition loop_state :: "'a::field lie_algebra \<Rightarrow> 'a vec list \<Rightarrow> nat \<Rightarrow> 'a submodule \<times> nat" where
  "loop_state L gs k = (loop_step L ^^ k) (submodule (dimension L) gs, 0)"

lemma span_bracket_closed:
  fixes L :: "'a::field lie_algebra"
  assumes len: "\<forall>b\<in>B. length b = dimension L"
    and rows: "\<forall>v\<in>B. \<forall>w\<in>B. bracket L v w \<in> span (dimension L) B"
  shows "bracket_closed L (span (dimension L) B)"
proof -
  let ?n = "dimension L"
  let ?S = "span ?n B"
  have left: "bracket L v w \<in> ?S" if w: "w \<in> B" and v: "v \<in> ?S" for v w
  proof -
    let ?V = "{v. length v = ?n \<and> bracket L v w \<in> ?S}"
    have "subspace ?n ?V"
      unfolding subspace_def
      by (auto simp: bracket_add_left bracket_smult_left bracket_zero_left
          span_zero span_add span_smult)
    moreover have "B \<subseteq> ?V" using len rows w by auto
    ultimately have "?S \<subseteq> ?V" by (rule span_minimal)
    with v show ?thesis by auto
  qed
  have "bracket L v w \<in> ?S" if v: "v \<in> ?S" and w: "w \<in> ?S" for v w
  proof -
    let ?V = "{w. length w = ?n \<and> bracket L v w \<in> ?S}"
    have "subspace ?n ?V"
      unfolding subspace_def
      by (auto simp: bracket_add_right bracket_smult_right bracket_zero_right
          span_zero span_add span_smult)
    moreover have "B \<subseteq> ?V" using len left v by auto
    ultimately have "?S \<subseteq> ?V" by (rule span_minimal)
    with w show ?thesis by auto
  qed
  then show ?thesis by (simp add: bracket_closed_def)
qed

lemma loop_body_eq: "loop_body L sm = echelon_form (dimension L) (sm @ brackets_of L sm)"
  by (simp add: loop_body_def Let_def brackets_of_def submodule_def sm_basis_def)

lemma set_brackets_of: "set (brackets_of L sm) = {bracket L v w |v w. v \<in> set sm \<and> w \<in> set sm}"
  by (auto simp: brackets_of_def)

lemma length_brackets_of: "b \<in> set (brackets_of L sm) \<Longrightarrow> length b = dimension L"
  by (auto simp: set_brackets_of)

lemma loop_body_rref: "rref (dimension L) (loop_body L sm)"
  by (simp add: loop_body_eq echelon_form_rref)

lemma loop_body_span:
  assumes "\<forall>b\<in>set sm. length b = dimension L"
  shows "span (dimension L) (set (loop_body L sm)) =
         span (dimension L) (set sm \<union> set (brackets_of L sm))"
proof -
  have "\<forall>x\<in>set (sm @ brackets_of L sm). length x = dimension L"
    using assms by (auto simp: length_brackets_of)
  then show ?thesis
    unfolding loop_body_eq by (simp add: echelon_form_span)
qed

lemma loop_body_span_mono:
  assumes "\<forall>b\<in>set sm. length b = dimension L"
  shows "span (dimension L) (set sm) \<subseteq> span (dimension L) (set (loop_body L sm))"
  unfolding loop_body_span [OF assms] by (rule span_mono) simp

lemma loop_body_fixed:
  assumes sm: "rref (dimension L) sm"
    and le: "sm_dimension (loop_body L sm) \<le> sm_dimension sm"
  shows "loop_body L sm = sm" "rows_closed L sm"
proof -
  have len: "\<forall>b\<in>set sm. length b = dimension L" using sm by (rule rref_len)
  show eq: "loop_body L sm = sm"
    using sm loop_body_rref loop_body_span_mono [OF len] le
    unfolding sm_dimension_def by (rule rref_span_subset_length)
  have "set sm \<union> set (brackets_of L sm) \<subseteq>
        span (dimension L) (set sm \<union> set (brackets_of L sm))"
    by (rule span_superset) (auto simp: len length_brackets_of)
  then have "set (brackets_of L sm) \<subseteq> span (dimension L) (set sm \<union> set (brackets_of L sm))"
    by blast
  then have "set (brackets_of L sm) \<subseteq> span (dimension L) (set sm)"
    using loop_body_span [OF len] eq by simp
  then show "rows_closed L sm"
    by (auto simp: rows_closed_def set_brackets_of)
qed

lemma basis_loop_unfold:
  "basis_loop L sm d =
     (if sm_dimension sm > d then basis_loop L (loop_body L sm) (sm_dimension sm) else sm)"
  by (rule basis_loop.simps)

lemma basis_loop_rref:
  "rref (dimension L) sm \<Longrightarrow> rref (dimension L) (basis_loop L sm d)"
proof (induction L sm d rule: basis_loop.induct)
  case (1 L sm d)
  show ?case
  proof (cases "d < sm_dimension sm")
    case True
    then have "rref (dimension L) (basis_loop L (loop_body L sm) (sm_dimension sm))"
      by (intro "1.IH") (simp_all add: loop_body_rref)
    with True show ?thesis by (subst basis_loop_unfold) simp
  next
    case False
    with "1.prems" show ?thesis by (subst basis_loop_unfold) simp
  qed
qed

lemma basis_loop_span_mono:
  "rref (dimension L) sm \<Longrightarrow>
   span (dimension L) (set sm) \<subseteq> span (dimension L) (set (basis_loop L sm d))"
proof (induction L sm d rule: basis_loop.induct)
  case (1 L sm d)
  show ?case
  proof (cases "d < sm_dimension sm")
    case True
    have "span (dimension L) (set (loop_body L sm)) \<subseteq>
          span (dimension L) (set (basis_loop L (loop_body L sm) (sm_dimension sm)))"
      using True by (intro "1.IH") (simp_all add: loop_body_rref)
    moreover have "span (dimension L) (set sm) \<subseteq> span (dimension L) (set (loop_body L sm))"
      using "1.prems" by (intro loop_body_span_mono rref_len)
    moreover have "basis_loop L sm d = basis_loop L (loop_body L sm) (sm_dimension sm)"
      using True by (subst basis_loop_unfold) simp
    ultimately show ?thesis by simp
  next
    case False
    then have "basis_loop L sm d = sm" by (subst basis_loop_unfold) simp
    then show ?thesis by simp
  qed
qed

lemma basis_loop_closed:
  "rref (dimension L) sm \<Longrightarrow> (sm_dimension sm \<le> d \<longrightarrow> rows_closed L sm) \<Longrightarrow>
   rows_closed L (basis_loop L sm d)"
proof (induction L sm d rule: basis_loop.induct)
  case (1 L sm d)
  show ?case
  proof (cases "d < sm_dimension sm")
    case True
    have step: "sm_dimension (loop_body L sm) \<le> sm_dimension sm \<longrightarrow> rows_closed L (loop_body L sm)"
    proof
      assume le: "sm_dimension (loop_body L sm) \<le> sm_dimension sm"
      from loop_body_fixed [OF "1.prems"(1) le]
      show "rows_closed L (loop_body L sm)" by simp
    qed
    have "rows_closed L (basis_loop L (loop_body L sm) (sm_dimension sm))"
      using True loop_body_rref step by (rule "1.IH")
    moreover have "basis_loop L sm d = basis_loop L (loop_body L sm) (sm_dimension sm)"
      using True by (subst basis_loop_unfold) simp
    ultimately show ?thesis by simp
  next
    case False
    then have "basis_loop L sm d = sm" by (subst basis_loop_unfold) simp
    with False "1.prems"(2) show ?thesis by simp
  qed
qed

lemma basis_loop_minimal:
  "subspace (dimension L) V \<Longrightarrow> bracket_closed L V \<Longrightarrow> set sm \<subseteq> V \<Longrightarrow>
   set (basis_loop L sm d) \<subseteq> V"
proof (induction L sm d rule: basis_loop.induct)
  case (1 L sm d)
  show ?case
  proof (cases "d < sm_dimension sm")
    case True
    have len: "\<forall>b\<in>set sm. length b = dimension L"
      using "1.prems"(1,3) by (auto simp: subspace_def)
    have "set (brackets_of L sm) \<subseteq> V"
      using "1.prems"(2,3) by (auto simp: set_brackets_of bracket_closed_def)
    with "1.prems"(3) have "set sm \<union> set (brackets_of L sm) \<subseteq> V" by simp
    with "1.prems"(1) have "span (dimension L) (set sm \<union> set (brackets_of L sm)) \<subseteq> V"
      by (rule span_minimal)
    then have "span (dimension L) (set (loop_body L sm)) \<subseteq> V"
      by (simp only: loop_body_span [OF len])
    moreover have "set (loop_body L sm) \<subseteq> span (dimension L) (set (loop_body L sm))"
      by (rule span_superset) (rule rref_len [OF loop_body_rref])
    ultimately have "set (loop_body L sm) \<subseteq> V" by blast
    with True "1.prems"(1,2)
    have "set (basis_loop L (loop_body L sm) (sm_dimension sm)) \<subseteq> V"
      by (rule "1.IH")
    moreover have "basis_loop L sm d = basis_loop L (loop_body L sm) (sm_dimension sm)"
      using True by (subst basis_loop_unfold) simp
    ultimately show ?thesis by simp
  next
    case False
    then have "basis_loop L sm d = sm" by (subst basis_loop_unfold) simp
    with "1.prems"(3) show ?thesis by simp
  qed
qed

lemma module_closure: "module S = closure (ambient S) (gens S)"
  by (simp add: module_def basis_def Let_def submodule_with_basis_def echelonized_basis_def
      lift_def closure_def lie_algebra_generators_def gens_def comp_def)

lemma basis_module: "basis S = map (\<lambda>v. \<lparr>parent = S, wrapped = v\<rparr>) (module S)"
  by (simp add: module_def basis_def Let_def submodule_with_basis_def lift_def comp_def)

lemma closure_rref: "rref (dimension L) (closure L gs)"
  unfolding closure_def submodule_def by (intro basis_loop_rref echelon_form_rref)

lemma closure_rows_closed: "rows_closed L (closure L gs)"
  unfolding closure_def submodule_def
  by (rule basis_loop_closed) (auto simp: echelon_form_rref sm_dimension_def rows_closed_def)

lemma closure_bracket_closed:
  "bracket_closed L (span (dimension L) (set (closure L gs)))"
  using closure_rows_closed [of L gs] rref_len [OF closure_rref, of L gs]
  by (intro span_bracket_closed) (simp_all add: rows_closed_def)

lemma closure_contains_gens:
  assumes "\<forall>g\<in>set gs. length g = dimension L"
  shows "set gs \<subseteq> span (dimension L) (set (closure L gs))"
proof -
  have "set gs \<subseteq> span (dimension L) (set gs)"
    using assms by (rule span_superset)
  also have "\<dots> = span (dimension L) (set (echelon_form (dimension L) gs))"
    using assms by (simp add: echelon_form_span)
  also have "\<dots> \<subseteq> span (dimension L) (set (closure L gs))"
    unfolding closure_def submodule_def by (intro basis_loop_span_mono echelon_form_rref)
  finally show ?thesis .
qed

lemma closure_minimal:
  assumes len: "\<forall>g\<in>set gs. length g = dimension L"
    and V: "subspace (dimension L) V" "bracket_closed L V" and sub: "set gs \<subseteq> V"
  shows "span (dimension L) (set (closure L gs)) \<subseteq> V"
proof -
  have "span (dimension L) (set gs) \<subseteq> V" using V(1) sub by (rule span_minimal)
  then have "span (dimension L) (set (echelon_form (dimension L) gs)) \<subseteq> V"
    using len by (simp add: echelon_form_span)
  moreover have "set (echelon_form (dimension L) gs) \<subseteq>
      span (dimension L) (set (echelon_form (dimension L) gs))"
    by (rule span_superset) (rule rref_len [OF echelon_form_rref])
  ultimately have "set (echelon_form (dimension L) gs) \<subseteq> V" by blast
  with V have "set (closure L gs) \<subseteq> V"
    unfolding closure_def submodule_def by (rule basis_loop_minimal)
  with V(1) show ?thesis by (rule span_minimal)
qed

lemma closure_Nil: "closure L [] = []"
  by (simp add: closure_def submodule_def basis_loop_unfold sm_dimension_def)

lemma closure_span_cong:
  assumes "\<forall>g\<in>set gs. length g = dimension L" "\<forall>g\<in>set gs'. length g = dimension L"
    and "span (dimension L) (set gs) = span (dimension L) (set gs')"
  shows "closure L gs = closure L gs'"
proof -
  let ?n = "dimension L"
  have half: "span ?n (set (closure L a)) \<subseteq> span ?n (set (closure L b))"
    if a: "\<forall>g\<in>set a. length g = ?n" and b: "\<forall>g\<in>set b. length g = ?n"
      and eq: "span ?n (set a) = span ?n (set b)" for a b :: "'a vec list"
  proof (rule closure_minimal [OF a subspace_span closure_bracket_closed])
    have "set a \<subseteq> span ?n (set a)" using a by (rule span_superset)
    also have "\<dots> = span ?n (set b)" by (rule eq)
    also have "\<dots> \<subseteq> span ?n (set (closure L b))"
      using closure_contains_gens [OF b] by (intro span_minimal [OF subspace_span])
    finally show "set a \<subseteq> span ?n (set (closure L b))" .
  qed
  have "span ?n (set (closure L gs)) = span ?n (set (closure L gs'))"
    using half [OF assms(1,2,3)] half [OF assms(2,1) assms(3) [symmetric]] by blast
  with closure_rref closure_rref show ?thesis
    by (rule rref_unique)
qed

lemma contains_iff: "contains S x \<longleftrightarrow> x \<in> module_set S"
proof
  assume "contains S x"
  then show "x \<in> module_set S"
    unfolding contains_def in_submodule_def module_set_def module_closure
    using reduce_zero_in_span [OF closure_rref] by blast
next
  assume "x \<in> module_set S"
  then show "contains S x"
    unfolding contains_def in_submodule_def module_set_def module_closure
    using in_span_reduce_zero [OF closure_rref] by (auto dest: span_length)
qed

lemma in_submodule_module:
  "in_submodule (dimension (ambient S)) (module S) v \<longleftrightarrow> v \<in> module_set S"
  using contains_iff [of S v] by (simp add: contains_def)

lemma subspace_module_set: "subspace (dimension (ambient S)) (module_set S)"
  by (simp add: module_set_def subspace_span)

lemma span_empty: "span n {} = {zero_vec n :: 'a::field vec}"
proof
  have "subspace n {zero_vec n :: 'a vec}"
    by (auto simp: subspace_def intro!: nth_equalityI)
  then show "span n {} \<subseteq> {zero_vec n :: 'a vec}"
    by (rule span_minimal) simp
  show "{zero_vec n :: 'a vec} \<subseteq> span n {}"
    by (simp add: span_zero)
qed

lemma span_without_zeros:
  fixes gs :: "'a::field vec list"
  assumes "\<forall>g\<in>set gs. length g = n"
  shows "span n (set (filter (\<lambda>g. \<not> is_zero g) gs)) = span n (set gs)"
proof (rule span_eqI)
  show "set (filter (\<lambda>g. \<not> is_zero g) gs) \<subseteq> span n (set gs)"
    using assms by (auto intro: span_base)
  show "set gs \<subseteq> span n (set (filter (\<lambda>g. \<not> is_zero g) gs))"
  proof
    fix g assume g: "g \<in> set gs"
    show "g \<in> span n (set (filter (\<lambda>g. \<not> is_zero g) gs))"
    proof (cases "is_zero g")
      case True
      then have "g = zero_vec n" using assms g by (simp add: is_zero_iff)
      then show ?thesis by (simp add: span_zero)
    next
      case False
      with g assms show ?thesis by (intro span_base) simp_all
    qed
  qed
qed (use assms in auto)

lemma loop_body_dim_le: "sm_dimension (loop_body L sm) \<le> dimension L"
  by (simp add: sm_dimension_def loop_body_eq echelon_form_length_le)

lemma basis_loop_iterations:
  "sm_dimension sm \<le> dimension L \<Longrightarrow> d \<le> dimension L \<Longrightarrow>
   \<exists>k. d + k \<le> dimension L \<and>
       (\<forall>j<k. loop_cond ((loop_step L ^^ j) (sm, d))) \<and>
       \<not> loop_cond ((loop_step L ^^ k) (sm, d)) \<and>
       basis_loop L sm d = fst ((loop_step L ^^ k) (sm, d))"
proof (induction L sm d rule: basis_loop.induct)
  case (1 L sm d)
  show ?case
  proof (cases "d < sm_dimension sm")
    case True
    have "\<exists>k. sm_dimension sm + k \<le> dimension L \<and>
       (\<forall>j<k. loop_cond ((loop_step L ^^ j) (loop_body L sm, sm_dimension sm))) \<and>
       \<not> loop_cond ((loop_step L ^^ k) (loop_body L sm, sm_dimension sm)) \<and>
       basis_loop L (loop_body L sm) (sm_dimension sm) =
         fst ((loop_step L ^^ k) (loop_body L sm, sm_dimension sm))"
      using True loop_body_dim_le "1.prems"(1) by (rule "1.IH")
    then obtain k where k: "sm_dimension sm + k \<le> dimension L"
      "\<forall>j<k. loop_cond ((loop_step L ^^ j) (loop_body L sm, sm_dimension sm))"
      "\<not> loop_cond ((loop_step L ^^ k) (loop_body L sm, sm_dimension sm))"
      "basis_loop L (loop_body L sm) (sm_dimension sm) =
         fst ((loop_step L ^^ k) (loop_body L sm, sm_dimension sm))"
      by blast
    have shift: "(loop_step L ^^ Suc j) (sm, d) =
        (loop_step L ^^ j) (loop_body L sm, sm_dimension sm)" for j
      by (simp add: funpow_swap1)
    have 1: "d + Suc k \<le> dimension L" using k(1) True by simp
    have 2: "\<forall>j<Suc k. loop_cond ((loop_step L ^^ j) (sm, d))"
    proof (intro allI impI)
      fix j assume j: "j < Suc k"
      show "loop_cond ((loop_step L ^^ j) (sm, d))"
      proof (cases j)
        case 0
        with True show ?thesis by simp
      next
        case (Suc j')
        with j k(2) have "loop_cond ((loop_step L ^^ j') (loop_body L sm, sm_dimension sm))"
          by simp
        then show ?thesis unfolding Suc shift .
      qed
    qed
    have 3: "\<not> loop_cond ((loop_step L ^^ Suc k) (sm, d))"
      unfolding shift by (rule k(3))
    have 4: "basis_loop L sm d = fst ((loop_step L ^^ Suc k) (sm, d))"
      unfolding shift using True k(4) by (subst basis_loop_unfold) simp
    from 1 2 3 4 show ?thesis by blast
  next
    case False
    then have "basis_loop L sm d = sm" by (subst basis_loop_unfold) simp
    with False "1.prems"(2) have "d + 0 \<le> dimension L \<and>
       (\<forall>j<0. loop_cond ((loop_step L ^^ j) (sm, d))) \<and>
       \<not> loop_cond ((loop_step L ^^ 0) (sm, d)) \<and>
       basis_loop L sm d = fst ((loop_step L ^^ 0) (sm, d))"
      by simp
    then show ?thesis by (rule exI)
  qed
qed

lemma loop_state_dim_le: "sm_dimension (fst (loop_state L gs j)) \<le> dimension L"
proof (cases j)
  case 0
  then show ?thesis
    by (simp add: loop_state_def submodule_def sm_dimension_def echelon_form_length_le)
next
  case (Suc j')
  obtain sm d where "loop_state L gs j' = (sm, d)" by (cases "loop_state L gs j'")
  then have "loop_state L gs j = (loop_body L sm, sm_dimension sm)"
    by (simp add: loop_state_def Suc)
  then show ?thesis by (simp add: loop_body_dim_le)
qed

lemma loop_state_d_increases:
  assumes "loop_cond (loop_state L gs j)"
  shows "snd (loop_state L gs j) < snd (loop_state L gs (Suc j))"
proof -
  obtain sm d where s: "loop_state L gs j = (sm, d)" by (cases "loop_state L gs j")
  then have "loop_state L gs (Suc j) = (loop_body L sm, sm_dimension sm)"
    by (simp add: loop_state_def)
  with s assms show ?thesis by simp
qed

lemma loop_state_dim_increases:
  assumes "loop_cond (loop_state L gs (Suc j))"
  shows "sm_dimension (fst (loop_state L gs j)) < sm_dimension (fst (loop_state L gs (Suc j)))"
proof -
  obtain sm d where s: "loop_state L gs j = (sm, d)" by (cases "loop_state L gs j")
  then have "loop_state L gs (Suc j) = (loop_body L sm, sm_dimension sm)"
    by (simp add: loop_state_def)
  with s assms show ?thesis by simp
qed

lemma ncols_uniform:
  "\<forall>r\<in>set rows. length r = n \<Longrightarrow> rows \<noteq> [] \<Longrightarrow> ncols rows = n"
  by (cases rows) (simp_all add: ncols_def)

lemma row_space_in_module:
  assumes "\<forall>r\<in>set rows. length r = dimension (ambient S)" "rows \<noteq> []"
  shows "is_submodule (ncols rows) (row_space rows) (dimension (ambient S)) (module S) \<longleftrightarrow>
         span (dimension (ambient S)) (set rows) \<subseteq> module_set S"
proof -
  let ?n = "dimension (ambient S)"
  let ?E = "echelon_form ?n rows"
  have len: "\<forall>b\<in>set ?E. length b = ?n" by (rule rref_len [OF echelon_form_rref])
  have nc: "ncols rows = ?n" using assms by (rule ncols_uniform)
  have "is_submodule (ncols rows) (row_space rows) ?n (module S) \<longleftrightarrow> set ?E \<subseteq> module_set S"
    unfolding nc
    by (auto simp: is_submodule_def row_space_def nc submodule_def sm_basis_def list_all_iff
        in_submodule_module)
  also have "\<dots> \<longleftrightarrow> span ?n (set ?E) \<subseteq> module_set S"
    using subspace_module_set len by (rule span_subset_subspace)
  also have "span ?n (set ?E) = span ?n (set rows)"
    using assms(1) by (rule echelon_form_span)
  finally show ?thesis .
qed

lemma row_space_empty:
  "is_submodule (ncols []) (row_space []) n M \<longleftrightarrow> n = 0"
  by (auto simp: is_submodule_def row_space_def ncols_def submodule_def sm_basis_def)

lemma classcall_ambient:
  "classcall_private coerce inh A gs = Inr S \<Longrightarrow> ambient S = top_of A"
  by (cases A) (auto simp: ambient_def split: sum.splits)

lemma build_top_of: "build coerce inh c = Inr A \<Longrightarrow> top_of A = root c"
proof (induction c arbitrary: A)
  case (Top L)
  then show ?case by auto
next
  case (SubalgebraOf c gs)
  then show ?case
    by (auto split: sum.splits dest: classcall_ambient)
qed

lemma coerce_gens_ambient_elements:
  "coerce_gens (algebra_call L) (map (AmbientElement L) gs) = Inr (filter (\<lambda>g. \<not> is_zero g) gs)"
  by (induction gs) simp_all

lemma dict_values_nonzero:
  "map_of [(int k, v ! k). k \<leftarrow> [0..<length v], v ! k \<noteq> 0] i = Some c \<Longrightarrow> c \<noteq> 0"
  by (auto dest!: map_of_SomeD)

lemma lincomb_pivots:
  "lincomb n (map (\<lambda>b. v ! lead b) B) B = comb n v B"
  by (induction B) simp_all

subsection \<open>Submodules over the integers\<close>

text \<open>Modelled from the spec: \<^verbatim>\<open>m.submodule(gens)\<close> over the integers, the lattice of the
  integer combinations of a list of rows, with its echelonized basis in Hermite form: the
  pivots are positive, the entries below a pivot are zero and those above it are reduced
  modulo the pivot. \<open>pivot_column\<close> combines the rows with a nonzero entry in column \<open>j\<close>
  into one row that has the greatest common divisor of these entries there, by row
  operations of determinant one (\<open>combine\<close>, with the coefficients of \<open>bezout\<close>), and leaves
  the other rows with a zero in that column; \<open>echelon_from\<close> does so column after column,
  and \<open>hermite\<close> reduces the entries above the pivots. The dimension of such a submodule is
  its rank, the number of its basis rows (\<open>sm_dimension\<close>).\<close>

definition bezout :: "int \<Rightarrow> int \<Rightarrow> int \<times> int" where
  "bezout a c = (let (s, t) = bezw (nat \<bar>a\<bar>) (nat \<bar>c\<bar>) in (sgn a * s, sgn c * t))"

definition combine :: "nat \<Rightarrow> int vec \<Rightarrow> int vec \<Rightarrow> int vec \<times> int vec" where
  "combine j r v =
     (let a = r ! j; c = v ! j; g = gcd a c; (s, t) = bezout a c in
      (vadd (smult s r) (smult t v), vsub (smult (a div g) v) (smult (c div g) r)))"

fun pivot_column :: "nat \<Rightarrow> int vec list \<Rightarrow> int vec option \<times> int vec list" where
  "pivot_column j [] = (None, [])"
| "pivot_column j (v # vs) =
     (case pivot_column j vs of
        (p, rest) \<Rightarrow>
          if v ! j = 0 then (p, v # rest)
          else (case p of
                  None \<Rightarrow> (Some v, rest)
                | Some r \<Rightarrow> (let (r', v') = combine j r v in (Some r', v' # rest))))"

definition positive :: "nat \<Rightarrow> int vec \<Rightarrow> int vec" where
  "positive j r = (if r ! j < 0 then smult (- 1) r else r)"

fun echelon_from :: "nat \<Rightarrow> nat \<Rightarrow> int vec list \<Rightarrow> int vec list" where
  "echelon_from 0 j rows = []"
| "echelon_from (Suc k) j rows =
     (case pivot_column j rows of
        (None, rest) \<Rightarrow> echelon_from k (Suc j) rest
      | (Some r, rest) \<Rightarrow> positive j r # echelon_from k (Suc j) rest)"

fun reduce_ZZ :: "int vec \<Rightarrow> int vec list \<Rightarrow> int vec" where
  "reduce_ZZ v [] = v"
| "reduce_ZZ v (b # B) = reduce_ZZ (vsub v (smult (v ! lead b div b ! lead b) b)) B"

fun hermite :: "int vec list \<Rightarrow> int vec list" where
  "hermite [] = []"
| "hermite (b # B) = (let H = hermite B in reduce_ZZ b H # H)"

definition submodule_ZZ :: "nat \<Rightarrow> int vec list \<Rightarrow> int submodule" where
  "submodule_ZZ n xs = hermite (echelon_from n 0 (map (fit n) xs))"

text \<open>Modelled from the spec: \<^verbatim>\<open>v in sm\<close> over the integers, membership of a vector in a
  lattice with a basis in Hermite form: the vector has the degree of the space, and
  subtracting integer multiples of the basis rows, pivot after pivot, leaves zero.\<close>

definition in_submodule_ZZ :: "nat \<Rightarrow> int submodule \<Rightarrow> int vec \<Rightarrow> bool" where
  "in_submodule_ZZ n sm v \<longleftrightarrow> length v = n \<and> is_zero (reduce_ZZ v sm)"

text \<open>The coefficients of \<open>bezout\<close> give the greatest common divisor, and \<open>combine\<close> puts it
  into column \<open>j\<close> of the first row and a zero into that of the second.\<close>

lemma bezout_gcd:
  assumes "bezout a c = (s, t)"
  shows "s * a + t * c = gcd a c"
proof -
  define u where "u = fst (bezw (nat \<bar>a\<bar>) (nat \<bar>c\<bar>))"
  define w where "w = snd (bezw (nat \<bar>a\<bar>) (nat \<bar>c\<bar>))"
  have "int (gcd (nat \<bar>a\<bar>) (nat \<bar>c\<bar>)) = u * int (nat \<bar>a\<bar>) + w * int (nat \<bar>c\<bar>)"
    unfolding u_def w_def by (rule bezw_aux)
  moreover have "gcd a c = int (gcd (nat \<bar>a\<bar>) (nat \<bar>c\<bar>))"
    by (rule gcd_int_def)
  ultimately have g: "gcd a c = u * \<bar>a\<bar> + w * \<bar>c\<bar>"
    by (simp only: int_nat_eq abs_ge_zero if_True)
  from assms have s: "s = sgn a * u" and t: "t = sgn c * w"
    by (simp_all add: bezout_def u_def w_def split: prod.splits)
  have "s * a + t * c = u * (sgn a * a) + w * (sgn c * c)"
    unfolding s t by (simp only: mult.assoc mult.left_commute mult.commute)
  also have "sgn a * a = \<bar>a\<bar>" by (simp only: abs_sgn mult.commute)
  also have "sgn c * c = \<bar>c\<bar>" by (simp only: abs_sgn mult.commute)
  finally show ?thesis using g by (simp only:)
qed

lemma combine_column:
  assumes "combine j r v = (r', v')" "j < length r" "j < length v"
  shows "r' ! j = gcd (r ! j) (v ! j)" "v' ! j = 0"
    "length r' = min (length r) (length v)" "length v' = min (length r) (length v)"
proof -
  define g where "g = gcd (r ! j) (v ! j)"
  obtain s t where st: "bezout (r ! j) (v ! j) = (s, t)" by (cases "bezout (r ! j) (v ! j)")
  from assms(1) st have r': "r' = vadd (smult s r) (smult t v)"
    and v': "v' = vsub (smult (r ! j div g) v) (smult (v ! j div g) r)"
    by (simp_all add: combine_def Let_def g_def)
  show "r' ! j = gcd (r ! j) (v ! j)"
    using bezout_gcd [OF st] assms(2,3) by (simp add: r')
  have "r ! j div g * v ! j = (r ! j * v ! j) div g"
    unfolding g_def by (rule dvd_div_mult) simp
  moreover have "v ! j div g * r ! j = (v ! j * r ! j) div g"
    unfolding g_def by (rule dvd_div_mult) simp
  ultimately have "r ! j div g * v ! j = v ! j div g * r ! j"
    by (simp only: mult.commute)
  then show "v' ! j = 0"
    using assms(2,3) by (simp add: v')
  show "length r' = min (length r) (length v)" by (simp add: r')
  show "length v' = min (length r) (length v)" by (simp add: v' min.commute)
qed

text \<open>A lattice in the coordinate space has at most \<open>n\<close> basis rows.\<close>

lemma length_echelon_from: "length (echelon_from k j rows) \<le> k"
proof (induction k arbitrary: j rows)
  case 0
  show ?case by simp
next
  case (Suc k)
  show ?case
  proof (cases "pivot_column j rows")
    case (Pair p rest)
    then show ?thesis
      using Suc [of "Suc j" rest] by (cases p) (simp_all add: le_SucI)
  qed
qed

lemma length_hermite: "length (hermite B) = length B"
  by (induction B) (simp_all add: Let_def)

lemma submodule_ZZ_length_le: "length (submodule_ZZ n xs) \<le> n"
  by (simp add: submodule_ZZ_def length_hermite length_echelon_from)

subsection \<open>The methods over the integers\<close>

text \<open>The methods \<^verbatim>\<open>basis\<close>, \<^verbatim>\<open>module\<close>, \<^verbatim>\<open>__contains__\<close>, \<^verbatim>\<open>retract\<close>, \<^verbatim>\<open>_bracket_\<close>,
  \<^verbatim>\<open>from_vector\<close>, \<^verbatim>\<open>_element_constructor_\<close> and \<^verbatim>\<open>__classcall_private__\<close> once more, line
  by line as above, with the submodules of the integers. The loop of \<^verbatim>\<open>basis\<close> still
  terminates, since the rank of a lattice in the coordinate space is at most \<open>n\<close>.\<close>

definition loop_body_ZZ :: "int lie_algebra \<Rightarrow> int submodule \<Rightarrow> int submodule" where
  "loop_body_ZZ L sm =
     (let SB = sm_basis sm in
      submodule_ZZ (dimension L) (sm_basis sm @ [bracket L v w. v \<leftarrow> SB, w \<leftarrow> SB]))"

function basis_loop_ZZ :: "int lie_algebra \<Rightarrow> int submodule \<Rightarrow> nat \<Rightarrow> int submodule" where
  "basis_loop_ZZ L sm d =
     (if sm_dimension sm > d then basis_loop_ZZ L (loop_body_ZZ L sm) (sm_dimension sm) else sm)"
  by pat_completeness auto
termination
proof (relation "measure (\<lambda>(L, sm, d). max (dimension L) (sm_dimension sm) - d)")
  show "wf (measure (\<lambda>(L, sm, d). max (dimension L) (sm_dimension sm) - d))" by simp
next
  fix L :: "int lie_algebra" and sm :: "int submodule" and d :: nat
  assume "d < sm_dimension sm"
  moreover have "sm_dimension (loop_body_ZZ L sm) \<le> dimension L"
    by (simp add: sm_dimension_def loop_body_ZZ_def Let_def submodule_ZZ_length_le)
  ultimately show "((L, loop_body_ZZ L sm, sm_dimension sm), (L, sm, d))
      \<in> measure (\<lambda>(L, sm, d). max (dimension L) (sm_dimension sm) - d)"
    by auto
qed

declare basis_loop_ZZ.simps [simp del]

definition basis_ZZ :: "int subalgebra \<Rightarrow> int element list" where
  "basis_ZZ S =
     (let L = ambient S;
          sm = submodule_ZZ (dimension L) (lie_algebra_generators S)
      in map (\<lambda>v. \<lparr>parent = S, wrapped = v\<rparr>) (echelonized_basis (basis_loop_ZZ L sm 0)))"

definition module_ZZ :: "int subalgebra \<Rightarrow> int submodule" where
  "module_ZZ S =
     submodule_with_basis (dimension (ambient S)) (map (\<lambda>X. lift S X) (basis_ZZ S))"

definition contains_ZZ :: "int subalgebra \<Rightarrow> int vec \<Rightarrow> bool" where
  "contains_ZZ S x = in_submodule_ZZ (dimension (ambient S)) (module_ZZ S) x"

definition retract_ZZ :: "int subalgebra \<Rightarrow> int vec \<Rightarrow> int error + int element" where
  "retract_ZZ S X =
     (if \<not> contains_ZZ S X then Inl (ValueError X S)
      else Inr \<lparr>parent = S, wrapped = X\<rparr>)"

definition elem_bracket_ZZ :: "int element \<Rightarrow> int element \<Rightarrow> int error + int element" where
  "elem_bracket_ZZ self x =
     (let P = parent self; self_lift = wrapped self; x_lift = wrapped x
      in retract_ZZ P (bracket (ambient P) self_lift x_lift))"

definition from_vector_ZZ :: "int subalgebra \<Rightarrow> int vec \<Rightarrow> int error + int element" where
  "from_vector_ZZ S v =
     (if length v = dimension (ambient S) then retract_ZZ S v
      else if length v = sm_dimension (module_ZZ S)
        then Inr \<lparr>parent = S, wrapped = lincomb (dimension (ambient S)) v (module_ZZ S)\<rparr>
      else Inl TypeError)"

fun element_constructor_ZZ :: "int constructor \<Rightarrow> int subalgebra \<Rightarrow> int pyobj \<Rightarrow> int error + int element" where
  "element_constructor_ZZ inh S (SubElement X) =
     (if parent X = S then Inr X else inh S (SubElement X))"
| "element_constructor_ZZ inh S (AmbientElement P x) =
     (if P = ambient S then retract_ZZ S x else inh S (AmbientElement P x))"
| "element_constructor_ZZ inh S (ModuleVector v) =
     (if in_submodule_ZZ (dimension (ambient S)) (module_ZZ S) v then from_vector_ZZ S v
      else inh S (ModuleVector v))"
| "element_constructor_ZZ inh S (PyList [a, b]) =
     (case element_constructor_ZZ inh S a of
        Inl e \<Rightarrow> Inl e
      | Inr u \<Rightarrow>
          (case element_constructor_ZZ inh S b of
             Inl e \<Rightarrow> Inl e
           | Inr v \<Rightarrow> elem_bracket_ZZ u v))"
| "element_constructor_ZZ inh S x = inh S x"

fun classcall_private_ZZ ::
  "int coercion \<Rightarrow> int constructor \<Rightarrow> int parent_arg \<Rightarrow> int pyobj \<Rightarrow> int error + int subalgebra" where
  "classcall_private_ZZ coerce inh (TopLevel L) gs =
     (case coerce_gens (coerce L) (as_gen_list gs) of
        Inl e \<Rightarrow> Inl e
      | Inr vs \<Rightarrow> Inr \<lparr>sub_ambient = L, sub_gens = vs\<rparr>)"
| "classcall_private_ZZ coerce inh (Nested A) gs =
     (case coerce_gens (element_constructor_ZZ inh A) (as_gen_list gs) of
        Inl e \<Rightarrow> Inl e
      | Inr es \<Rightarrow> Inr \<lparr>sub_ambient = ambient A, sub_gens = map (lift A) es\<rparr>)"

subsection \<open>The Heisenberg algebra\<close>

text \<open>The algebra of the examples in the source: basis \<open>x, y, z\<close> over the rationals with
  \<open>[x, y] = z\<close>, and its subalgebras generated by \<open>x, y\<close>, by \<open>y, z\<close>, by \<open>z\<close>, by \<open>x\<close> and by
  the empty list.\<close>

definition heisenberg :: "rat lie_algebra" where
  "heisenberg = \<lparr>dimension = 3, struct_coeffs =
     [[[0, 0, 0], [0, 0, 1], [0, 0, 0]],
      [[0, 0, - 1], [0, 0, 0], [0, 0, 0]],
      [[0, 0, 0], [0, 0, 0], [0, 0, 0]]]\<rparr>"

definition heis_xy :: "rat subalgebra" where
  "heis_xy = \<lparr>sub_ambient = heisenberg, sub_gens = [[1, 0, 0], [0, 1, 0]]\<rparr>"

definition heis_yz :: "rat subalgebra" where
  "heis_yz = \<lparr>sub_ambient = heisenberg, sub_gens = [[0, 1, 0], [0, 0, 1]]\<rparr>"

definition heis_z :: "rat subalgebra" where
  "heis_z = \<lparr>sub_ambient = heisenberg, sub_gens = [[0, 0, 1]]\<rparr>"

definition heis_x :: "rat subalgebra" where
  "heis_x = \<lparr>sub_ambient = heisenberg, sub_gens = [[1, 0, 0]]\<rparr>"

definition heis_zero :: "rat subalgebra" where
  "heis_zero = \<lparr>sub_ambient = heisenberg, sub_gens = []\<rparr>"

definition heis_rows :: "rat vec list" where
  "heis_rows = [[0, 0, 0], [0, 0, 1], [0, 0, 0], [0, 0, - 1], [0, 0, 0], [0, 0, 0],
                [0, 0, 0], [0, 0, 0], [0, 0, 0]]"

definition nested_example :: "rat construction" where
  "nested_example =
     SubalgebraOf
       (SubalgebraOf (Top heisenberg)
          (PyList [AmbientElement heisenberg [0, 1, 0], AmbientElement heisenberg [0, 0, 1]]))
       (PyList [SubElement \<lparr>parent = heis_yz, wrapped = [0, 0, 1]\<rparr>])"

lemma heis_dim: "dimension heisenberg = 3"
  by (simp add: heisenberg_def)

lemma heis_sm0: "submodule 3 [[1, 0, 0], [0, 1, 0 :: rat]] = [[1, 0, 0], [0, 1, 0]]"
  by code_simp

lemma heis_pass1:
  "loop_body heisenberg [[1, 0, 0], [0, 1, 0]] = [[1, 0, 0], [0, 1, 0], [0, 0, 1]]"
  by code_simp

lemma heis_pass2:
  "loop_body heisenberg [[1, 0, 0], [0, 1, 0], [0, 0, 1]] = [[1, 0, 0], [0, 1, 0], [0, 0, 1]]"
  by code_simp

lemma heis_loop:
  "basis_loop heisenberg [[1, 0, 0], [0, 1, 0]] 0 = [[1, 0, 0], [0, 1, 0], [0, 0, 1]]"
  by (simp add: basis_loop.simps sm_dimension_def heis_pass1 heis_pass2)

lemma module_heis_xy: "module heis_xy = [[1, 0, 0], [0, 1, 0], [0, 0, 1]]"
  by (simp add: module_closure closure_def heis_xy_def ambient_def gens_def heis_dim heis_sm0 heis_loop)

lemma gens_heis_xy: "gens heis_xy = [[1, 0, 0], [0, 1, 0]]"
  by (simp add: gens_def heis_xy_def)

lemma ambient_heis_xy: "ambient heis_xy = heisenberg"
  by (simp add: ambient_def heis_xy_def)

lemma heis_yz_sm0: "submodule 3 [[0, 1, 0], [0, 0, 1 :: rat]] = [[0, 1, 0], [0, 0, 1]]"
  by code_simp

lemma heis_yz_pass:
  "loop_body heisenberg [[0, 1, 0], [0, 0, 1]] = [[0, 1, 0], [0, 0, 1]]"
  by code_simp

lemma module_heis_yz: "module heis_yz = [[0, 1, 0], [0, 0, 1]]"
  by (simp add: module_closure closure_def heis_yz_def ambient_def gens_def heis_dim
      heis_yz_sm0 basis_loop.simps sm_dimension_def heis_yz_pass)

lemma ambient_heis_yz: "ambient heis_yz = heisenberg"
  by (simp add: ambient_def heis_yz_def)

lemma heis_bracket_xy: "bracket heisenberg [1, 0, 0] [0, 1, 0] = [0, 0, 1]"
  by code_simp

lemma heis_xy_members:
  "in_submodule 3 [[1, 0, 0], [0, 1, 0], [0, 0, 1]] [1, 0, 0 :: rat]"
  "in_submodule 3 [[1, 0, 0], [0, 1, 0], [0, 0, 1]] [0, 1, 0 :: rat]"
  "in_submodule 3 [[1, 0, 0], [0, 1, 0], [0, 0, 1]] [0, 2, 9 :: rat]"
  by code_simp+

lemma heis_xy_contains_x: "contains heis_xy [1, 0, 0]"
  by (simp add: contains_def module_heis_xy ambient_heis_xy heis_dim heis_xy_members)

lemma heis_xy_contains_y: "contains heis_xy [0, 1, 0]"
  by (simp add: contains_def module_heis_xy ambient_heis_xy heis_dim heis_xy_members)

lemma heis_xy_contains_z: "contains heis_xy [0, 0, 1]"
proof -
  have "in_submodule 3 [[1, 0, 0], [0, 1, 0], [0, 0, 1]] [0, 0, 1 :: rat]"
    by code_simp
  then show ?thesis
    by (simp add: contains_def module_heis_xy ambient_heis_xy heis_dim)
qed

lemma heis_xy_elem_bracket:
  "elem_bracket \<lparr>parent = heis_xy, wrapped = [1, 0, 0]\<rparr> \<lparr>parent = heis_xy, wrapped = [0, 1, 0]\<rparr>
     = Inr \<lparr>parent = heis_xy, wrapped = [0, 0, 1]\<rparr>"
  by (simp add: elem_bracket_def retract_def ambient_heis_xy heis_bracket_xy heis_xy_contains_z)

lemma heis_span_example:
  "span 3 (set [[1, 0, 0], [0, 1, 0 :: rat]]) = span 3 (set [[1, 0, 0], [0, 1, 0], [1, 1, 0]])"
proof (rule span_eqI)
  let ?a = "[1, 0, 0] :: rat vec" and ?b = "[0, 1, 0] :: rat vec"
  have ab: "vadd ?a ?b = [1, 1, 0]" by (simp add: vadd_def)
  have "vadd ?a ?b \<in> span 3 {?a, ?b}"
    by (intro span_add span_base) simp_all
  then have mem: "[1, 1, 0] \<in> span 3 {?a, ?b}" by (simp only: ab)
  show "set [?a, ?b] \<subseteq> span 3 (set [?a, ?b, [1, 1, 0]])"
    by (auto intro: span_base)
  show "set [?a, ?b, [1, 1, 0]] \<subseteq> span 3 (set [?a, ?b])"
    using mem by (auto intro: span_base)
qed simp_all

lemma heis_algebra_basis:
  "algebra_basis (as_algebra heisenberg) =
     [AmbientElement heisenberg [1, 0, 0], AmbientElement heisenberg [0, 1, 0],
      AmbientElement heisenberg [0, 0, 1]]"
  by (simp add: as_algebra_def heis_dim unit_vec_def upt_rec)

lemma heis_brackets_all:
  "[bracket heisenberg v w. v \<leftarrow> [[1, 0, 0], [0, 1, 0], [0, 0, 1]],
      w \<leftarrow> [[1, 0, 0], [0, 1, 0], [0, 0, 1]]] = heis_rows"
  by code_simp

lemma heis_bracket_rows: "bracket_rows heis_xy (as_algebra heisenberg) = Inr heis_rows"
proof -
  have "bracket_vector (as_algebra heisenberg) \<lparr>parent = heis_xy, wrapped = v\<rparr>
          (AmbientElement heisenberg w) = Inr (bracket heisenberg v w)" for v w
    by (simp add: as_algebra_def ambient_heis_xy lift_def)
  then show ?thesis
    using heis_brackets_all
    by (simp add: bracket_rows_def basis_module module_heis_xy heis_algebra_basis)
qed

lemma heis_rows_in_module:
  "is_submodule (ncols heis_rows) (row_space heis_rows) 3 [[1, 0, 0], [0, 1, 0], [0, 0, 1]]"
  by code_simp

lemma build_nested_example: "build algebra_call no_inherited nested_example = Inr (Nested heis_z)"
  by (simp add: nested_example_def heis_yz_def heis_z_def is_zero_def ambient_def lift_def)

lemma heis_xy_coords: "coordinate_vector 3 [[1, 0, 0], [0, 1, 0], [0, 0, 1]] [0, 2, 9 :: rat] = Inr [0, 2, 9]"
  by code_simp

lemma heis_xy_dict:
  "[(int k, [0, 2, 9 :: rat] ! k). k \<leftarrow> [0..<length [0, 2, 9 :: rat]], [0, 2, 9 :: rat] ! k \<noteq> 0]
     = [(1, 2), (2, 9)]"
  by code_simp

lemma heis_xy_monomial_coefficients:
  "monomial_coefficients \<lparr>parent = heis_xy, wrapped = [0, 2, 9]\<rparr> = Inr [(1, 2), (2, 9)]"
  using heis_xy_dict
  by (simp add: monomial_coefficients_def to_vector_def module_heis_xy ambient_heis_xy heis_dim
      heis_xy_coords)

lemma heis_yz_coords: "coordinate_vector 3 [[0, 1, 0], [0, 0, 1]] [0, 2, 9 :: rat] = Inr [2, 9]"
  by code_simp

lemma heis_yz_member: "in_submodule 3 [[0, 1, 0], [0, 0, 1]] [0, 2, 9 :: rat]"
  by code_simp

lemma heis_zero_construction:
  "classcall_private algebra_call no_inherited (TopLevel heisenberg) (PyList []) = Inr heis_zero"
  by (simp add: heis_zero_def)

lemma basis_heis_zero: "basis heis_zero = []"
  by (simp add: basis_def Let_def lie_algebra_generators_def heis_zero_def submodule_def
      basis_loop.simps sm_dimension_def echelonized_basis_def)

lemma module_heis_zero: "module heis_zero = []"
  by (simp add: basis_module [symmetric] module_def basis_heis_zero submodule_with_basis_def)

lemma heis_zero_bracket_rows: "bracket_rows heis_zero (as_algebra heisenberg) = Inr []"
  by (simp add: bracket_rows_def basis_heis_zero)

lemma ambient_heis_zero: "ambient heis_zero = heisenberg"
  by (simp add: ambient_def heis_zero_def)

lemma heis_zero_is_ideal: "is_ideal heis_zero (as_algebra heisenberg) = Inr False"
proof -
  have "\<not> equals_subalgebra (as_algebra heisenberg) heis_zero \<and>
      fd_with_basis (as_algebra heisenberg)"
    by (simp add: as_algebra_def)
  then show ?thesis
    by (simp add: is_ideal_def heis_zero_bracket_rows is_submodule_def ncols_def
        ambient_heis_zero heis_dim)
qed

lemma heis_x_sm0: "submodule 3 [[1, 0, 0 :: rat]] = [[1, 0, 0]]"
  by code_simp

lemma heis_x_pass: "loop_body heisenberg [[1, 0, 0]] = [[1, 0, 0]]"
  by code_simp

lemma module_heis_x: "module heis_x = [[1, 0, 0]]"
  by (simp add: module_closure closure_def heis_x_def ambient_def gens_def heis_dim heis_x_sm0
      basis_loop.simps sm_dimension_def heis_x_pass)

lemma heis_x_rows:
  "[bracket heisenberg v w. v \<leftarrow> [[1, 0, 0]], w \<leftarrow> [[1, 0, 0], [0, 1, 0], [0, 0, 1]]] =
     [[0, 0, 0], [0, 0, 1], [0, 0, 0]]"
  by code_simp

lemma heis_x_not_in_module:
  "\<not> is_submodule (ncols [[0, 0, 0], [0, 0, 1], [0, 0, 0 :: rat]])
        (row_space [[0, 0, 0], [0, 0, 1], [0, 0, 0 :: rat]]) 3 [[1, 0, 0 :: rat]]"
  by code_simp

text \<open>The examples of \<^verbatim>\<open>is_ideal\<close> in the source: the subalgebra generated by \<open>x\<close> is not an
  ideal of the algebra, the one generated by \<open>x, y\<close> is.\<close>

lemma doctest_is_ideal_x: "is_ideal heis_x (as_algebra heisenberg) = Inr False"
proof -
  have "bracket_vector (as_algebra heisenberg) \<lparr>parent = heis_x, wrapped = v\<rparr>
          (AmbientElement heisenberg w) = Inr (bracket heisenberg v w)" for v w
    by (simp add: as_algebra_def ambient_def heis_x_def lift_def)
  then have "bracket_rows heis_x (as_algebra heisenberg) = Inr [[0, 0, 0], [0, 0, 1], [0, 0, 0]]"
    using heis_x_rows
    by (simp add: bracket_rows_def basis_module module_heis_x heis_algebra_basis)
  moreover have "\<not> equals_subalgebra (as_algebra heisenberg) heis_x \<and>
      fd_with_basis (as_algebra heisenberg)"
    by (simp add: as_algebra_def)
  moreover have "dimension (ambient heis_x) = 3"
    by (simp add: ambient_def heis_x_def heis_dim)
  ultimately show ?thesis
    using heis_x_not_in_module by (simp add: is_ideal_def module_heis_x)
qed

lemma heis_xy_is_ideal: "is_ideal heis_xy (as_algebra heisenberg) = Inr True"
proof -
  have A: "\<not> equals_subalgebra (as_algebra heisenberg) heis_xy \<and> fd_with_basis (as_algebra heisenberg)"
    by (simp add: as_algebra_def)
  then show ?thesis
    using heis_rows_in_module
    by (simp add: is_ideal_def heis_bracket_rows ambient_heis_xy heis_dim module_heis_xy)
qed

subsection \<open>Algebras over the integers\<close>

text \<open>The algebra with basis \<open>x, y, z, w\<close> over the integers, \<open>[x, y] = z\<close> and
  \<open>[x, z] = w\<close>, its subalgebra generated by \<open>x, y, 2 z, 4 w\<close> and the one generated by the
  whole basis; and the algebra of the examples of \<^verbatim>\<open>module\<close> and \<^verbatim>\<open>basis_matrix\<close> in the
  source, with basis \<open>x, y, z\<close> and \<open>[x, y] = 3 z\<close>.\<close>

definition nilpotent_ZZ :: "int lie_algebra" where
  "nilpotent_ZZ = \<lparr>dimension = 4, struct_coeffs =
     [[[0, 0, 0, 0], [0, 0, 1, 0], [0, 0, 0, 1], [0, 0, 0, 0]],
      [[0, 0, - 1, 0], [0, 0, 0, 0], [0, 0, 0, 0], [0, 0, 0, 0]],
      [[0, 0, 0, - 1], [0, 0, 0, 0], [0, 0, 0, 0], [0, 0, 0, 0]],
      [[0, 0, 0, 0], [0, 0, 0, 0], [0, 0, 0, 0], [0, 0, 0, 0]]]\<rparr>"

definition sub_ZZ :: "int subalgebra" where
  "sub_ZZ = \<lparr>sub_ambient = nilpotent_ZZ,
             sub_gens = [[1, 0, 0, 0], [0, 1, 0, 0], [0, 0, 2, 0], [0, 0, 0, 4]]\<rparr>"

definition full_ZZ :: "int subalgebra" where
  "full_ZZ = \<lparr>sub_ambient = nilpotent_ZZ,
              sub_gens = [[1, 0, 0, 0], [0, 1, 0, 0], [0, 0, 1, 0], [0, 0, 0, 1]]\<rparr>"

definition heisenberg3_ZZ :: "int lie_algebra" where
  "heisenberg3_ZZ = \<lparr>dimension = 3, struct_coeffs =
     [[[0, 0, 0], [0, 0, 3], [0, 0, 0]],
      [[0, 0, - 3], [0, 0, 0], [0, 0, 0]],
      [[0, 0, 0], [0, 0, 0], [0, 0, 0]]]\<rparr>"

text \<open>The two examples of the source: the subalgebra generated by \<open>x, y\<close> has the basis
  \<open>x, y, 3 z\<close>, and the one generated by \<open>4 x + y, y\<close> has the basis \<open>4 x, y, 12 z\<close>.\<close>

lemma doctest_module_ZZ:
  "module_ZZ \<lparr>sub_ambient = heisenberg3_ZZ, sub_gens = [[1, 0, 0], [0, 1, 0]]\<rparr> =
     [[1, 0, 0], [0, 1, 0], [0, 0, 3]]"
  by code_simp

lemma doctest_basis_matrix_ZZ:
  "module_ZZ \<lparr>sub_ambient = heisenberg3_ZZ, sub_gens = [[4, 1, 0], [0, 1, 0]]\<rparr> =
     [[4, 0, 0], [0, 1, 0], [0, 0, 12]]"
  by code_simp

text \<open>The subalgebra generated by \<open>x, y, 2 z, 4 w\<close>. The submodule of the generators has
  rank \<open>4\<close>. The first pass of the loop adds \<open>z = [x, y]\<close> and \<open>2 w = [x, 2 z]\<close>; the rank is
  still \<open>4\<close>, so the loop stops there.\<close>

lemma nilpotent_dim: "dimension nilpotent_ZZ = 4"
  by (simp add: nilpotent_ZZ_def)

lemma sub_ZZ_sm0:
  "submodule_ZZ 4 [[1, 0, 0, 0], [0, 1, 0, 0], [0, 0, 2, 0], [0, 0, 0, 4]] =
     [[1, 0, 0, 0], [0, 1, 0, 0], [0, 0, 2, 0], [0, 0, 0, 4]]"
  by code_simp

lemma sub_ZZ_pass:
  "loop_body_ZZ nilpotent_ZZ [[1, 0, 0, 0], [0, 1, 0, 0], [0, 0, 2, 0], [0, 0, 0, 4]] =
     [[1, 0, 0, 0], [0, 1, 0, 0], [0, 0, 1, 0], [0, 0, 0, 2]]"
  by code_simp

lemma sub_ZZ_loop:
  "basis_loop_ZZ nilpotent_ZZ [[1, 0, 0, 0], [0, 1, 0, 0], [0, 0, 2, 0], [0, 0, 0, 4]] 0 =
     [[1, 0, 0, 0], [0, 1, 0, 0], [0, 0, 1, 0], [0, 0, 0, 2]]"
  by (simp add: basis_loop_ZZ.simps sm_dimension_def sub_ZZ_pass)

lemma ambient_sub_ZZ: "ambient sub_ZZ = nilpotent_ZZ"
  by (simp add: ambient_def sub_ZZ_def)

lemma gens_sub_ZZ: "gens sub_ZZ = [[1, 0, 0, 0], [0, 1, 0, 0], [0, 0, 2, 0], [0, 0, 0, 4]]"
  by (simp add: gens_def sub_ZZ_def)

lemma basis_sub_ZZ:
  "basis_ZZ sub_ZZ = map (\<lambda>v. \<lparr>parent = sub_ZZ, wrapped = v\<rparr>)
     [[1, 0, 0, 0], [0, 1, 0, 0], [0, 0, 1, 0], [0, 0, 0, 2]]"
proof -
  have "lie_algebra_generators sub_ZZ = [[1, 0, 0, 0], [0, 1, 0, 0], [0, 0, 2, 0], [0, 0, 0, 4]]"
    by (simp add: lie_algebra_generators_def sub_ZZ_def)
  then show ?thesis
    by (simp add: basis_ZZ_def Let_def ambient_sub_ZZ nilpotent_dim sub_ZZ_sm0 sub_ZZ_loop
        echelonized_basis_def)
qed

lemma module_sub_ZZ:
  "module_ZZ sub_ZZ = [[1, 0, 0, 0], [0, 1, 0, 0], [0, 0, 1, 0], [0, 0, 0, 2]]"
  by (simp add: module_ZZ_def basis_sub_ZZ submodule_with_basis_def lift_def)

lemma sub_ZZ_bracket_xz: "bracket nilpotent_ZZ [1, 0, 0, 0] [0, 0, 1, 0] = [0, 0, 0, 1]"
  by code_simp

lemma sub_ZZ_members:
  "in_submodule_ZZ 4 [[1, 0, 0, 0], [0, 1, 0, 0], [0, 0, 1, 0], [0, 0, 0, 2]] [1, 0, 0, 0] \<and>
   in_submodule_ZZ 4 [[1, 0, 0, 0], [0, 1, 0, 0], [0, 0, 1, 0], [0, 0, 0, 2]] [0, 0, 1, 0] \<and>
   \<not> in_submodule_ZZ 4 [[1, 0, 0, 0], [0, 1, 0, 0], [0, 0, 1, 0], [0, 0, 0, 2]] [0, 0, 0, 1]"
  by code_simp

lemma sub_ZZ_contains:
  "contains_ZZ sub_ZZ [1, 0, 0, 0] \<and> contains_ZZ sub_ZZ [0, 0, 1, 0] \<and>
   \<not> contains_ZZ sub_ZZ [0, 0, 0, 1]"
  using sub_ZZ_members by (simp add: contains_ZZ_def ambient_sub_ZZ nilpotent_dim module_sub_ZZ)

lemma full_ZZ_construction:
  "classcall_private_ZZ algebra_call no_inherited (TopLevel nilpotent_ZZ)
     (PyList (map (AmbientElement nilpotent_ZZ)
        [[1, 0, 0, 0], [0, 1, 0, 0], [0, 0, 1, 0], [0, 0, 0, 1]])) = Inr full_ZZ"
  by (simp add: full_ZZ_def is_zero_def)

lemma sub_ZZ_nested_construction:
  "classcall_private_ZZ algebra_call no_inherited (Nested full_ZZ)
     (PyList (map (\<lambda>v. SubElement \<lparr>parent = full_ZZ, wrapped = v\<rparr>)
        [[1, 0, 0, 0], [0, 1, 0, 0], [0, 0, 2, 0], [0, 0, 0, 4]])) = Inr sub_ZZ"
  by (simp add: full_ZZ_def sub_ZZ_def is_zero_def ambient_def lift_def)

lemma sub_ZZ_direct_construction:
  "classcall_private_ZZ algebra_call no_inherited (TopLevel nilpotent_ZZ)
     (PyList (map (AmbientElement nilpotent_ZZ)
        [[1, 0, 0, 0], [0, 1, 0, 0], [0, 0, 2, 0], [0, 0, 0, 4]])) = Inr sub_ZZ"
  by (simp add: sub_ZZ_def is_zero_def)

section \<open>The claims\<close>

text \<open>Claim C1. The module that \<^verbatim>\<open>basis\<close> and \<^verbatim>\<open>module\<close> compute is meant to be the least
  bracket-closed submodule that contains the generators. Over the integers it is not always
  bracket-closed: the loop stops as soon as the rank does not grow, and a lattice can grow
  without its rank growing. For the generators \<open>x, y, 2 z, 4 w\<close> the module has the basis
  \<open>x, y, z, 2 w\<close>; it contains \<open>x\<close> and \<open>z\<close> and does not contain \<open>[x, z] = w\<close>.\<close>

theorem basis_not_bracket_closed_over_ZZ:
  "classcall_private_ZZ algebra_call no_inherited (TopLevel nilpotent_ZZ)
     (PyList (map (AmbientElement nilpotent_ZZ)
        [[1, 0, 0, 0], [0, 1, 0, 0], [0, 0, 2, 0], [0, 0, 0, 4]])) = Inr sub_ZZ \<and>
   module_ZZ sub_ZZ = [[1, 0, 0, 0], [0, 1, 0, 0], [0, 0, 1, 0], [0, 0, 0, 2]] \<and>
   contains_ZZ sub_ZZ [1, 0, 0, 0] \<and>
   contains_ZZ sub_ZZ [0, 0, 1, 0] \<and>
   bracket (ambient sub_ZZ) [1, 0, 0, 0] [0, 0, 1, 0] = [0, 0, 0, 1] \<and>
   \<not> contains_ZZ sub_ZZ [0, 0, 0, 1]"
  using sub_ZZ_direct_construction sub_ZZ_contains
  by (simp add: module_sub_ZZ ambient_sub_ZZ sub_ZZ_bracket_xz)

text \<open>That \<open>w\<close> is outside the module does not depend on the membership test: no
  combination of the basis \<open>x, y, z, 2 w\<close> with integer coefficients is \<open>w\<close>.\<close>

lemma sub_ZZ_no_combination:
  "lincomb 4 cs [[1, 0, 0, 0], [0, 1, 0, 0], [0, 0, 1, 0], [0, 0, 0, 2 :: int]] \<noteq> [0, 0, 0, 1]"
proof
  assume a: "lincomb 4 cs [[1, 0, 0, 0], [0, 1, 0, 0], [0, 0, 1, 0], [0, 0, 0, 2 :: int]] = [0, 0, 0, 1]"
  have "even (lincomb 4 cs [[1, 0, 0, 0], [0, 1, 0, 0], [0, 0, 1, 0], [0, 0, 0, 2 :: int]] ! 3)"
  proof (cases cs)
    case Nil
    then show ?thesis by (simp add: zero_vec_def numeral_eq_Suc)
  next
    case c1: (Cons a1 cs1)
    show ?thesis
    proof (cases cs1)
      case Nil
      then show ?thesis using c1 by (simp add: zero_vec_def vadd_def smult_def numeral_eq_Suc)
    next
      case c2: (Cons a2 cs2)
      show ?thesis
      proof (cases cs2)
        case Nil
        then show ?thesis using c1 c2 by (simp add: zero_vec_def vadd_def smult_def numeral_eq_Suc)
      next
        case c3: (Cons a3 cs3)
        show ?thesis
        proof (cases cs3)
          case Nil
          then show ?thesis
            using c1 c2 c3 by (simp add: zero_vec_def vadd_def smult_def numeral_eq_Suc)
        next
          case (Cons a4 cs4)
          then show ?thesis
            using c1 c2 c3 by (simp add: zero_vec_def vadd_def smult_def numeral_eq_Suc)
        qed
      qed
    qed
  qed
  with a show False by simp
qed

text \<open>Over a field the claim holds. For every list of generators of the ambient algebra
  (the empty list too), the module is the least bracket-closed subspace that contains the
  generators: it is a subspace, it contains every generator, the bracket of two of its
  vectors lies in it, and every subspace with these properties contains it. The empty list
  gives the zero subspace.\<close>

theorem basis_minimal_closed_submodule:
  assumes "\<forall>g\<in>set (gens S). length g = dimension (ambient S)"
  shows "subspace (dimension (ambient S)) (module_set S) \<and>
         set (gens S) \<subseteq> module_set S \<and>
         bracket_closed (ambient S) (module_set S) \<and>
         (\<forall>V. subspace (dimension (ambient S)) V \<and> set (gens S) \<subseteq> V \<and>
              bracket_closed (ambient S) V \<longrightarrow> module_set S \<subseteq> V) \<and>
         (gens S = [] \<longrightarrow>
            module S = [] \<and> module_set S = {zero_vec (dimension (ambient S))})"
proof -
  have "module_set S = {zero_vec (dimension (ambient S))}" if "gens S = []"
    unfolding module_set_def module_closure using that by (simp add: closure_Nil span_empty)
  then show ?thesis
    unfolding module_set_def module_closure
    using closure_contains_gens [OF assms] closure_minimal [OF assms]
    by (auto simp: subspace_span closure_bracket_closed closure_Nil)
qed

text \<open>On the Heisenberg algebra with the generators \<open>x\<close> and \<open>y\<close>.\<close>

theorem basis_minimal_closed_submodule_witness:
  "list_all (\<lambda>g. length g = dimension (ambient heis_xy)) (gens heis_xy) \<and>
   subspace 3 (module_set heis_xy) \<and>
   set (gens heis_xy) \<subseteq> module_set heis_xy \<and>
   bracket_closed heisenberg (module_set heis_xy) \<and>
   module heis_xy = [[1, 0, 0], [0, 1, 0], [0, 0, 1]]"
proof -
  have h: "\<forall>g\<in>set (gens heis_xy). length g = dimension (ambient heis_xy)"
    by (simp add: gens_heis_xy ambient_heis_xy heis_dim)
  from basis_minimal_closed_submodule [OF h] h show ?thesis
    by (simp add: module_heis_xy ambient_heis_xy heis_dim list_all_iff)
qed

text \<open>Claim C2. For every ambient element \<open>x\<close>, \<^verbatim>\<open>retract\<close> raises its error, which carries
  \<open>x\<close> and the subalgebra, if and only if \<open>x\<close> is not in the module; and when \<open>x\<close> is in the
  module it wraps \<open>x\<close> as it is, so that \<^verbatim>\<open>lift\<close> of the result is \<open>x\<close>.\<close>

theorem retract_lift_roundtrip:
  "(retract S x = Inl (ValueError x S) \<longleftrightarrow> x \<notin> module_set S) \<and>
   ((\<exists>e. retract S x = Inl e) \<longleftrightarrow> x \<notin> module_set S) \<and>
   (x \<in> module_set S \<longrightarrow>
      retract S x = Inr \<lparr>parent = S, wrapped = x\<rparr> \<and>
      lift S \<lparr>parent = S, wrapped = x\<rparr> = x)"
  by (simp add: retract_def contains_iff lift_def)

text \<open>On the Heisenberg algebra: \<open>2 x + 3 y + 5 z\<close> in the subalgebra generated by \<open>x, y\<close>.\<close>

theorem retract_lift_roundtrip_witness:
  "retract heis_xy [2, 3, 5] = Inr \<lparr>parent = heis_xy, wrapped = [2, 3, 5]\<rparr> \<and>
   lift heis_xy \<lparr>parent = heis_xy, wrapped = [2, 3, 5]\<rparr> = [2, 3, 5] \<and>
   [2, 3, 5] \<in> module_set heis_xy"
proof -
  have "in_submodule 3 [[1, 0, 0], [0, 1, 0], [0, 0, 1]] [2, 3, 5 :: rat]"
    by code_simp
  then have c: "contains heis_xy [2, 3, 5]"
    by (simp add: contains_def module_heis_xy ambient_heis_xy heis_dim)
  with retract_lift_roundtrip [of heis_xy "[2, 3, 5]"] show ?thesis
    by (simp add: contains_iff)
qed

text \<open>Claim C3. The bracket of two elements of the same subalgebra is meant never to
  raise. Over the integers it can: in the subalgebra generated by \<open>x, y, 2 z, 4 w\<close> the basis
  is \<open>x, y, z, 2 w\<close>, the elements \<open>x\<close> and \<open>z\<close> are made by \<^verbatim>\<open>retract\<close>, and their bracket
  raises the \<open>ValueError\<close> of \<^verbatim>\<open>retract\<close>, since \<open>[x, z] = w\<close> is not in the module.\<close>

theorem elem_bracket_raises_over_ZZ:
  "basis_ZZ sub_ZZ =
     [\<lparr>parent = sub_ZZ, wrapped = [1, 0, 0, 0]\<rparr>, \<lparr>parent = sub_ZZ, wrapped = [0, 1, 0, 0]\<rparr>,
      \<lparr>parent = sub_ZZ, wrapped = [0, 0, 1, 0]\<rparr>, \<lparr>parent = sub_ZZ, wrapped = [0, 0, 0, 2]\<rparr>] \<and>
   retract_ZZ sub_ZZ [1, 0, 0, 0] = Inr \<lparr>parent = sub_ZZ, wrapped = [1, 0, 0, 0]\<rparr> \<and>
   retract_ZZ sub_ZZ [0, 0, 1, 0] = Inr \<lparr>parent = sub_ZZ, wrapped = [0, 0, 1, 0]\<rparr> \<and>
   elem_bracket_ZZ \<lparr>parent = sub_ZZ, wrapped = [1, 0, 0, 0]\<rparr>
       \<lparr>parent = sub_ZZ, wrapped = [0, 0, 1, 0]\<rparr> =
     Inl (ValueError [0, 0, 0, 1] sub_ZZ)"
  by (simp add: basis_sub_ZZ retract_ZZ_def elem_bracket_ZZ_def sub_ZZ_contains ambient_sub_ZZ
      sub_ZZ_bracket_xz)

text \<open>Over a field the claim holds. For two elements of the same subalgebra, whose wrapped
  values lie in its module, the \<^verbatim>\<open>retract\<close> in \<^verbatim>\<open>_bracket_\<close> succeeds and the result wraps the
  ambient bracket.\<close>

theorem elem_bracket_never_raises:
  assumes "parent u = S" "parent v = S" "contains S (wrapped u)" "contains S (wrapped v)"
  shows "elem_bracket u v =
           Inr \<lparr>parent = S, wrapped = bracket (ambient S) (wrapped u) (wrapped v)\<rparr>"
proof -
  have "bracket_closed (ambient S) (module_set S)"
    unfolding module_set_def module_closure by (rule closure_bracket_closed)
  with assms(3,4) have "contains S (bracket (ambient S) (wrapped u) (wrapped v))"
    by (simp add: contains_iff bracket_closed_def)
  with assms(1) show ?thesis
    by (simp add: elem_bracket_def Let_def retract_def)
qed

text \<open>On the Heisenberg algebra: \<open>[x, y] = z\<close> in the subalgebra generated by \<open>x, y\<close>.\<close>

theorem elem_bracket_never_raises_witness:
  "contains heis_xy [1, 0, 0] \<and> contains heis_xy [0, 1, 0] \<and>
   elem_bracket \<lparr>parent = heis_xy, wrapped = [1, 0, 0]\<rparr> \<lparr>parent = heis_xy, wrapped = [0, 1, 0]\<rparr>
     = Inr \<lparr>parent = heis_xy, wrapped = [0, 0, 1]\<rparr>"
  using elem_bracket_never_raises [of "\<lparr>parent = heis_xy, wrapped = [1, 0, 0]\<rparr>" heis_xy
      "\<lparr>parent = heis_xy, wrapped = [0, 1, 0]\<rparr>"]
  by (simp add: heis_xy_contains_x heis_xy_contains_y ambient_heis_xy heis_bracket_xy)

text \<open>Claim C4. \<^verbatim>\<open>is_ideal\<close> is meant to return whether the row space of the brackets is
  contained in the module. For the zero subalgebra, made from the empty list of generators,
  it does not: the basis is empty, the matrix of brackets has no row and no column, its row
  space has degree \<open>0\<close> and is no submodule of the module of degree \<open>3\<close>, and the result is
  false for an algebra that does not equal the subalgebra.\<close>

theorem is_ideal_zero_subalgebra:
  "classcall_private algebra_call no_inherited (TopLevel heisenberg) (PyList []) = Inr heis_zero \<and>
   basis heis_zero = [] \<and>
   bracket_rows heis_zero (as_algebra heisenberg) = Inr [] \<and>
   is_ideal heis_zero (as_algebra heisenberg) = Inr False"
  using heis_zero_construction basis_heis_zero heis_zero_bracket_rows heis_zero_is_ideal
  by simp

text \<open>There is no bracket to leave the zero subalgebra: the span of the empty list of rows
  lies in the module.\<close>

lemma zero_subalgebra_brackets_stay:
  "span (dimension (ambient heis_zero)) (set []) \<subseteq> module_set heis_zero"
  using subspace_module_set by (rule span_minimal) simp

text \<open>The rest of the claim holds. \<^verbatim>\<open>is_ideal\<close> returns true when the candidate equals the
  subalgebra. Otherwise, for a candidate in the category: when the matrix of brackets has a
  row, the result is whether the span of the rows is contained in the module; when it has
  none, the result is whether \<open>n = 0\<close>; and when building the rows raises \<open>ValueError\<close> or
  \<open>TypeError\<close> the result is false.\<close>

lemma is_ideal_built_rows:
  "(equals_subalgebra A S \<longrightarrow> is_ideal S A = Inr True) \<and>
   (\<not> equals_subalgebra A S \<and> fd_with_basis A \<longrightarrow>
      (\<forall>rows. bracket_rows S A = Inr rows \<and> rows \<noteq> [] \<and>
              (\<forall>r\<in>set rows. length r = dimension (ambient S)) \<longrightarrow>
              is_ideal S A =
                Inr (span (dimension (ambient S)) (set rows) \<subseteq> module_set S)) \<and>
      (bracket_rows S A = Inr [] \<longrightarrow> is_ideal S A = Inr (dimension (ambient S) = 0)) \<and>
      (\<forall>x T. bracket_rows S A = Inl (ValueError x T) \<longrightarrow> is_ideal S A = Inr False) \<and>
      (bracket_rows S A = Inl TypeError \<longrightarrow> is_ideal S A = Inr False))"
  by (simp add: is_ideal_def row_space_in_module row_space_empty)

text \<open>Claim C5. The loop of \<^verbatim>\<open>basis\<close> terminates after at most \<open>n\<close> passes, \<open>n\<close> the
  dimension of the ambient algebra: there is a \<open>k \<le> n\<close> such that the loop condition holds
  before each of the first \<open>k\<close> passes and fails after them, where the loop returns. The
  dimension of the submodule never exceeds \<open>n\<close>, the variable \<open>d\<close> increases with each pass,
  and the dimension increases with each pass that is not the last.\<close>

theorem basis_loop_terminates_within_dimension:
  "\<exists>k\<le>dimension L.
     (\<forall>j<k. loop_cond (loop_state L gs j) \<and>
            snd (loop_state L gs j) < snd (loop_state L gs (Suc j))) \<and>
     \<not> loop_cond (loop_state L gs k) \<and>
     basis_loop L (submodule (dimension L) gs) 0 = fst (loop_state L gs k) \<and>
     (\<forall>j. sm_dimension (fst (loop_state L gs j)) \<le> dimension L) \<and>
     (\<forall>j. loop_cond (loop_state L gs (Suc j)) \<longrightarrow>
          sm_dimension (fst (loop_state L gs j)) < sm_dimension (fst (loop_state L gs (Suc j))))"
proof -
  have "sm_dimension (submodule (dimension L) gs) \<le> dimension L"
    by (simp add: submodule_def sm_dimension_def echelon_form_length_le)
  from basis_loop_iterations [OF this, of 0]
  obtain k where k: "k \<le> dimension L" "\<forall>j<k. loop_cond (loop_state L gs j)"
    "\<not> loop_cond (loop_state L gs k)"
    "basis_loop L (submodule (dimension L) gs) 0 = fst (loop_state L gs k)"
    unfolding loop_state_def by auto
  show ?thesis
    using k loop_state_dim_le loop_state_d_increases loop_state_dim_increases by blast
qed

text \<open>On the Heisenberg algebra with the generators \<open>x\<close> and \<open>y\<close>: two passes.\<close>

theorem basis_loop_terminates_witness:
  "loop_state heisenberg [[1, 0, 0], [0, 1, 0]] 2 = ([[1, 0, 0], [0, 1, 0], [0, 0, 1]], 3) \<and>
   (\<exists>k\<le>3.
     \<not> loop_cond (loop_state heisenberg [[1, 0, 0], [0, 1, 0]] k) \<and>
     basis_loop heisenberg (submodule 3 [[1, 0, 0], [0, 1, 0]]) 0
       = fst (loop_state heisenberg [[1, 0, 0], [0, 1, 0]] k))"
proof -
  have e: "loop_state heisenberg [[1, 0, 0], [0, 1, 0]] 2 = ([[1, 0, 0], [0, 1, 0], [0, 0, 1]], 3)"
    by (simp add: heis_dim loop_state_def numeral_2_eq_2 heis_sm0 heis_pass1 heis_pass2 sm_dimension_def)
  from basis_loop_terminates_within_dimension [of heisenberg "[[1, 0, 0], [0, 1, 0]]"]
  have "\<exists>k\<le>3.
     \<not> loop_cond (loop_state heisenberg [[1, 0, 0], [0, 1, 0]] k) \<and>
     basis_loop heisenberg (submodule 3 [[1, 0, 0], [0, 1, 0]]) 0
       = fst (loop_state heisenberg [[1, 0, 0], [0, 1, 0]] k)"
    unfolding heis_dim by blast
  with e show ?thesis by (rule conjI)
qed

text \<open>Claim C6. The module does not depend on the order or the redundancy of the generator
  list: two lists of ambient elements with the same span give subalgebras with the same
  module, that is the same echelonized basis.\<close>

theorem module_independent_of_generator_list:
  fixes L :: "'a::field lie_algebra"
  assumes "\<forall>g\<in>set gs. length g = dimension L" "\<forall>g\<in>set gs'. length g = dimension L"
    and "span (dimension L) (set gs) = span (dimension L) (set gs')"
  shows "\<exists>S S'.
     classcall_private algebra_call inh (TopLevel L) (PyList (map (AmbientElement L) gs)) = Inr S \<and>
     classcall_private algebra_call inh (TopLevel L) (PyList (map (AmbientElement L) gs')) = Inr S' \<and>
     ambient S = L \<and> ambient S' = L \<and>
     module S = module S' \<and> map wrapped (basis S) = map wrapped (basis S')"
proof -
  let ?nz = "filter (\<lambda>g. \<not> is_zero g)"
  let ?S = "\<lparr>sub_ambient = L, sub_gens = ?nz gs\<rparr>"
  let ?S' = "\<lparr>sub_ambient = L, sub_gens = ?nz gs'\<rparr>"
  have 1: "classcall_private algebra_call inh (TopLevel L) (PyList (map (AmbientElement L) gs)) = Inr ?S"
    and 2: "classcall_private algebra_call inh (TopLevel L) (PyList (map (AmbientElement L) gs')) = Inr ?S'"
    by (simp_all add: coerce_gens_ambient_elements)
  have "span (dimension L) (set (?nz gs)) = span (dimension L) (set (?nz gs'))"
    using assms(3) by (simp only: span_without_zeros [OF assms(1)] span_without_zeros [OF assms(2)])
  then have "closure L (?nz gs) = closure L (?nz gs')"
    using assms(1,2) by (intro closure_span_cong) simp_all
  then have 3: "module ?S = module ?S'"
    by (simp add: module_closure ambient_def gens_def)
  then have 4: "map wrapped (basis ?S) = map wrapped (basis ?S')"
    by (simp add: basis_module comp_def)
  from 1 2 3 4 show ?thesis
    by (intro exI [of _ ?S] exI [of _ ?S']) (simp add: ambient_def)
qed

text \<open>On the Heisenberg algebra: the generator lists \<open>x, y\<close> and \<open>x, y, x + y\<close>.\<close>

theorem module_independent_of_generator_list_witness:
  "(\<exists>S S'.
     classcall_private algebra_call no_inherited (TopLevel heisenberg)
       (PyList (map (AmbientElement heisenberg) [[1, 0, 0], [0, 1, 0]])) = Inr S \<and>
     classcall_private algebra_call no_inherited (TopLevel heisenberg)
       (PyList (map (AmbientElement heisenberg) [[1, 0, 0], [0, 1, 0], [1, 1, 0]])) = Inr S' \<and>
     ambient S = heisenberg \<and> ambient S' = heisenberg \<and>
     module S = module S' \<and> map wrapped (basis S) = map wrapped (basis S')) \<and>
   classcall_private algebra_call no_inherited (TopLevel heisenberg)
       (PyList (map (AmbientElement heisenberg) [[1, 0, 0], [0, 1, 0]])) = Inr heis_xy"
proof -
  have "classcall_private algebra_call no_inherited (TopLevel heisenberg)
       (PyList (map (AmbientElement heisenberg) [[1, 0, 0], [0, 1, 0]])) = Inr heis_xy"
    by (simp add: heis_xy_def is_zero_def)
  moreover note module_independent_of_generator_list [of "[[1, 0, 0], [0, 1, 0]]" heisenberg
        "[[1, 0, 0], [0, 1, 0], [1, 1, 0]]" no_inherited, OF _ _ heis_span_example [folded heis_dim]]
  ultimately show ?thesis
    by (simp add: heis_dim)
qed

text \<open>Claim C7. A subalgebra constructed with a subalgebra as its ambient is meant to have
  the closure of the lifted generators as its module. Over the integers it need not: the
  subalgebra generated by \<open>x, y, 2 z, 4 w\<close> inside the subalgebra generated by \<open>x, y, z, w\<close> is
  the subalgebra of the algebra at the bottom with the lifted generators, and its module,
  with the basis \<open>x, y, z, 2 w\<close>, contains \<open>x\<close> and \<open>z\<close> and not \<open>[x, z] = w\<close>: it is not closed
  under the bracket.\<close>

theorem nested_module_not_closed_over_ZZ:
  "classcall_private_ZZ algebra_call no_inherited (TopLevel nilpotent_ZZ)
     (PyList (map (AmbientElement nilpotent_ZZ)
        [[1, 0, 0, 0], [0, 1, 0, 0], [0, 0, 1, 0], [0, 0, 0, 1]])) = Inr full_ZZ \<and>
   classcall_private_ZZ algebra_call no_inherited (Nested full_ZZ)
     (PyList (map (\<lambda>v. SubElement \<lparr>parent = full_ZZ, wrapped = v\<rparr>)
        [[1, 0, 0, 0], [0, 1, 0, 0], [0, 0, 2, 0], [0, 0, 0, 4]])) = Inr sub_ZZ \<and>
   ambient sub_ZZ = nilpotent_ZZ \<and>
   gens sub_ZZ = [[1, 0, 0, 0], [0, 1, 0, 0], [0, 0, 2, 0], [0, 0, 0, 4]] \<and>
   module_ZZ sub_ZZ = [[1, 0, 0, 0], [0, 1, 0, 0], [0, 0, 1, 0], [0, 0, 0, 2]] \<and>
   in_submodule_ZZ 4 (module_ZZ sub_ZZ) [1, 0, 0, 0] \<and>
   in_submodule_ZZ 4 (module_ZZ sub_ZZ) [0, 0, 1, 0] \<and>
   bracket nilpotent_ZZ [1, 0, 0, 0] [0, 0, 1, 0] = [0, 0, 0, 1] \<and>
   \<not> in_submodule_ZZ 4 (module_ZZ sub_ZZ) [0, 0, 0, 1]"
  using full_ZZ_construction sub_ZZ_nested_construction sub_ZZ_members
  by (simp add: ambient_sub_ZZ gens_sub_ZZ module_sub_ZZ sub_ZZ_bracket_xz)

text \<open>The flattening itself is as claimed, and over a field so is the module. A
  subalgebra constructed with a subalgebra \<open>S\<close> as its ambient has the ambient of \<open>S\<close>, so that
  a nested construction of any depth yields a subalgebra of the algebra at the bottom; the
  generators are coerced into \<open>S\<close> and lifted; and the module is the least bracket-closed
  subspace of the coordinate space of that algebra that contains the lifted generators.\<close>

theorem nested_subalgebra_flattens:
  fixes c :: "'a::field construction"
  assumes "build coerce inh (SubalgebraOf c gs) = Inr A"
  shows "\<exists>S. A = Nested S \<and> ambient S = root c \<and>
             module S = closure (root c) (gens S) \<and>
             (\<forall>S'. build coerce inh c = Inr (Nested S') \<longrightarrow>
                (\<exists>es. coerce_gens (element_constructor inh S') (as_gen_list gs) = Inr es \<and>
                      gens S = map (lift S') es)) \<and>
             ((\<forall>g\<in>set (gens S). length g = dimension (root c)) \<longrightarrow>
                subspace (dimension (root c)) (module_set S) \<and>
                set (gens S) \<subseteq> module_set S \<and>
                bracket_closed (root c) (module_set S) \<and>
                (\<forall>V. subspace (dimension (root c)) V \<and> set (gens S) \<subseteq> V \<and>
                     bracket_closed (root c) V \<longrightarrow> module_set S \<subseteq> V))"
proof -
  from assms obtain A' S where A': "build coerce inh c = Inr A'"
    and S: "classcall_private coerce inh A' gs = Inr S" and A: "A = Nested S"
    by (auto split: sum.splits)
  have amb: "ambient S = root c"
    using classcall_ambient [OF S] build_top_of [OF A'] by simp
  have lifted: "\<exists>es. coerce_gens (element_constructor inh S') (as_gen_list gs) = Inr es \<and>
          gens S = map (lift S') es" if "A' = Nested S'" for S'
    using S that by (auto simp: gens_def split: sum.splits)
  have least: "subspace (dimension (root c)) (module_set S) \<and>
      set (gens S) \<subseteq> module_set S \<and>
      bracket_closed (root c) (module_set S) \<and>
      (\<forall>V. subspace (dimension (root c)) V \<and> set (gens S) \<subseteq> V \<and>
           bracket_closed (root c) V \<longrightarrow> module_set S \<subseteq> V)"
    if len: "\<forall>g\<in>set (gens S). length g = dimension (root c)"
  proof -
    have len': "\<forall>g\<in>set (gens S). length g = dimension (ambient S)"
      using len by (simp add: amb)
    show ?thesis
      unfolding module_set_def module_closure amb [symmetric]
      using closure_contains_gens [OF len'] closure_minimal [OF len']
      by (auto simp: subspace_span closure_bracket_closed)
  qed
  show ?thesis
  proof (intro exI [of _ S] conjI)
    show "A = Nested S" by (rule A)
    show "ambient S = root c" by (rule amb)
    show "module S = closure (root c) (gens S)" by (simp add: module_closure amb)
    show "\<forall>S'. build coerce inh c = Inr (Nested S') \<longrightarrow>
        (\<exists>es. coerce_gens (element_constructor inh S') (as_gen_list gs) = Inr es \<and>
              gens S = map (lift S') es)"
      using A' lifted by auto
    show "(\<forall>g\<in>set (gens S). length g = dimension (root c)) \<longrightarrow>
        subspace (dimension (root c)) (module_set S) \<and>
        set (gens S) \<subseteq> module_set S \<and>
        bracket_closed (root c) (module_set S) \<and>
        (\<forall>V. subspace (dimension (root c)) V \<and> set (gens S) \<subseteq> V \<and>
             bracket_closed (root c) V \<longrightarrow> module_set S \<subseteq> V)"
      using least by blast
  qed
qed

text \<open>On the Heisenberg algebra: the subalgebra generated by \<open>z\<close> inside the subalgebra
  generated by \<open>y, z\<close>.\<close>

theorem nested_subalgebra_flattens_witness:
  "build algebra_call no_inherited nested_example = Inr (Nested heis_z) \<and>
   ambient heis_z = heisenberg \<and>
   module heis_z = closure heisenberg (gens heis_z) \<and>
   gens heis_z = [[0, 0, 1]] \<and>
   bracket_closed heisenberg (module_set heis_z)"
  using nested_subalgebra_flattens [OF build_nested_example [unfolded nested_example_def]]
  by (simp add: build_nested_example gens_def heis_z_def heis_dim)

text \<open>Claim C8, as amended. \<^verbatim>\<open>to_vector\<close> of an element of a subalgebra returns the
  coordinates of the wrapped value relative to the basis of the ambient algebra, a vector of
  length \<open>n\<close>. The coordinates relative to the basis of the subalgebra, of the length of
  that basis, are what \<^verbatim>\<open>monomial_coefficients\<close> computes from it with
  \<^verbatim>\<open>coordinate_vector\<close>.\<close>

theorem to_vector_ambient_coordinates:
  assumes "contains (parent X) (wrapped X)"
  shows "to_vector X = wrapped X \<and>
         length (to_vector X) = dimension (ambient (parent X)) \<and>
         (\<exists>c. coordinate_vector (dimension (ambient (parent X))) (module (parent X)) (to_vector X)
                 = Inr c \<and>
              length c = sm_dimension (module (parent X)) \<and>
              lincomb (dimension (ambient (parent X))) c (module (parent X)) = wrapped X \<and>
              monomial_coefficients X = Inr [(int k, c ! k). k \<leftarrow> [0..<length c], c ! k \<noteq> 0])"
proof -
  let ?S = "parent X" and ?n = "dimension (ambient (parent X))"
  have mem: "in_submodule ?n (module ?S) (wrapped X)"
    using assms by (simp add: contains_def)
  then have len: "length (wrapped X) = ?n" by (simp add: in_submodule_def)
  have "wrapped X \<in> span ?n (set (module ?S))"
    using assms by (simp add: contains_iff module_set_def)
  then have "comb ?n (wrapped X) (module ?S) = wrapped X"
    unfolding module_closure by (intro comb_fixes_span closure_rref)
  with mem len show ?thesis
    by (simp add: to_vector_def coordinate_vector_def monomial_coefficients_def Let_def
        sm_basis_def sm_dimension_def lincomb_pivots)
qed

text \<open>The claim as first stated fails on the example of the source: in the subalgebra
  generated by \<open>y, z\<close> the element \<open>2 y + 9 z\<close> has the coordinates \<open>(2, 9)\<close>, and
  \<^verbatim>\<open>to_vector\<close> returns \<open>(0, 2, 9)\<close>.\<close>

theorem to_vector_not_subalgebra_coordinates:
  "to_vector \<lparr>parent = heis_yz, wrapped = [0, 2, 9]\<rparr> = [0, 2, 9] \<and>
   coordinate_vector (dimension (ambient heis_yz)) (module heis_yz) [0, 2, 9] = Inr [2, 9] \<and>
   sm_dimension (module heis_yz) = 2 \<and>
   length (to_vector \<lparr>parent = heis_yz, wrapped = [0, 2, 9]\<rparr>) = 3 \<and>
   Inr (to_vector \<lparr>parent = heis_yz, wrapped = [0, 2, 9]\<rparr>) \<noteq>
     coordinate_vector (dimension (ambient heis_yz)) (module heis_yz)
       (wrapped \<lparr>parent = heis_yz, wrapped = [0, 2, 9 :: rat]\<rparr>)"
  by (simp add: to_vector_def module_heis_yz ambient_heis_yz heis_dim heis_yz_coords
      sm_dimension_def)

theorem to_vector_ambient_coordinates_witness:
  "contains heis_yz [0, 2, 9] \<and>
   to_vector \<lparr>parent = heis_yz, wrapped = [0, 2, 9]\<rparr> = [0, 2, 9] \<and>
   length (to_vector \<lparr>parent = heis_yz, wrapped = [0, 2, 9 :: rat]\<rparr>) = dimension (ambient heis_yz) \<and>
   monomial_coefficients \<lparr>parent = heis_yz, wrapped = [0, 2, 9]\<rparr> = Inr [(0, 2), (1, 9)]"
proof -
  have c: "contains heis_yz [0, 2, 9]"
    by (simp add: contains_def module_heis_yz ambient_heis_yz heis_dim heis_yz_member)
  have d: "[(int k, [2, 9 :: rat] ! k). k \<leftarrow> [0..<length [2, 9 :: rat]], [2, 9 :: rat] ! k \<noteq> 0]
     = [(0, 2), (1, 9)]"
    by code_simp
  from to_vector_ambient_coordinates [of "\<lparr>parent = heis_yz, wrapped = [0, 2, 9]\<rparr>"] c
  show ?thesis
    using d by (auto simp: module_heis_yz ambient_heis_yz heis_dim heis_yz_coords sm_dimension_def)
qed

text \<open>Claim C9. \<^verbatim>\<open>__getitem__\<close> of an element is meant to return zero for an index without
  a coefficient. It does not: the dictionary raises \<open>KeyError\<close>, which the handler for
  \<open>IndexError\<close> lets through. For \<open>2 y + 9 z\<close> in the subalgebra generated by \<open>x, y\<close> the
  indices \<open>0\<close> and \<open>5\<close> raise, and the index \<open>1\<close> gives \<open>2\<close>.\<close>

theorem elem_getitem_missing_index:
  "elem_getitem \<lparr>parent = heis_xy, wrapped = [0, 2, 9]\<rparr> 0 = Inl (KeyError 0) \<and>
   elem_getitem \<lparr>parent = heis_xy, wrapped = [0, 2, 9]\<rparr> 5 = Inl (KeyError 5) \<and>
   elem_getitem \<lparr>parent = heis_xy, wrapped = [0, 2, 9]\<rparr> 1 = Inr 2"
  by (simp add: elem_getitem_def heis_xy_monomial_coefficients dict_lookup_def)

text \<open>No index gives the value zero.\<close>

theorem elem_getitem_never_zero: "elem_getitem X i \<noteq> Inr 0"
proof
  assume "elem_getitem X i = Inr 0"
  moreover have "monomial_coefficients X \<noteq> Inl IndexError"
    by (auto simp: monomial_coefficients_def Let_def coordinate_vector_def split: sum.splits)
  ultimately obtain d where d: "monomial_coefficients X = Inr d" and look: "map_of d i = Some 0"
    by (auto simp: elem_getitem_def dict_lookup_def
        split: sum.splits error.splits option.splits)
  from d obtain v where "d = [(int k, v ! k). k \<leftarrow> [0..<length v], v ! k \<noteq> 0]"
    by (auto simp: monomial_coefficients_def Let_def split: sum.splits)
  with look dict_values_nonzero [of v i 0] show False by simp
qed

text \<open>Claim C10. \<^verbatim>\<open>__getitem__\<close> of a subalgebra raises \<open>NameError\<close> for every argument
  that is not a tuple of length two, and returns a value for a pair only, where it is the
  bracket of the two coerced operands.\<close>

theorem getitem_only_pairs:
  "(\<not> is_pair x \<longrightarrow> getitem inh S x = Inl NameError) \<and>
   ((\<exists>r. getitem inh S x = Inr r) \<longrightarrow> is_pair x) \<and>
   getitem inh S (PyTuple [a, b]) =
     (case element_constructor inh S a of
        Inl e \<Rightarrow> Inl e
      | Inr u \<Rightarrow>
          (case element_constructor inh S b of
             Inl e \<Rightarrow> Inl e
           | Inr v \<Rightarrow> elem_bracket u v))"
  by (cases "(inh, S, x)" rule: getitem.cases) auto

text \<open>On the Heisenberg algebra: an integer, a list, and the pair \<open>(x, y)\<close>.\<close>

theorem getitem_only_pairs_witness:
  "getitem no_inherited heis_xy (PyInt 0) = Inl NameError \<and>
   getitem no_inherited heis_xy (PyList [SubElement \<lparr>parent = heis_xy, wrapped = [1, 0, 0]\<rparr>]) =
     Inl NameError \<and>
   getitem no_inherited heis_xy
     (PyTuple [SubElement \<lparr>parent = heis_xy, wrapped = [1, 0, 0]\<rparr>,
               SubElement \<lparr>parent = heis_xy, wrapped = [0, 1, 0]\<rparr>]) =
     Inr \<lparr>parent = heis_xy, wrapped = [0, 0, 1]\<rparr>"
  using getitem_only_pairs [of "PyInt 0" no_inherited heis_xy
      "SubElement \<lparr>parent = heis_xy, wrapped = [1, 0, 0]\<rparr>"
      "SubElement \<lparr>parent = heis_xy, wrapped = [0, 1, 0]\<rparr>"]
    getitem_only_pairs [of "PyList [SubElement \<lparr>parent = heis_xy, wrapped = [1, 0, 0]\<rparr>]"
      no_inherited heis_xy]
  by (simp add: heis_xy_elem_bracket)

end
